theory Spec2Isabelle
  imports Complex_Main
begin

section \<open>Strings and dictionaries\<close>

text \<open>
  Strings are byte strings. \<open>str.upper\<close> and \<open>str.lower\<close> are modelled on the ASCII
  letters; every other byte is left as it is.
\<close>

definition upper_char :: "char \<Rightarrow> char" where
  "upper_char c =
     (let n = (of_char c :: nat) in if 97 \<le> n \<and> n \<le> 122 then char_of (n - 32) else c)"

definition lower_char :: "char \<Rightarrow> char" where
  "lower_char c =
     (let n = (of_char c :: nat) in if 65 \<le> n \<and> n \<le> 90 then char_of (n + 32) else c)"

definition upper :: "string \<Rightarrow> string" where
  "upper s = map upper_char s"

definition lower :: "string \<Rightarrow> string" where
  "lower s = map lower_char s"

text \<open>
  A Python \<open>dict\<close> built from a list of pairs is kept as that list; a later pair with the
  same key overrides an earlier one, so a lookup reads the last pair of the key.
\<close>

type_synonym py_dict = "(string \<times> string) list"

definition dict_lookup :: "py_dict \<Rightarrow> string \<Rightarrow> string option" where
  "dict_lookup d k = map_of (rev d) k"

text \<open>\<open>d.get(k, default)\<close>\<close>

definition dict_get :: "py_dict \<Rightarrow> string \<Rightarrow> string \<Rightarrow> string" where
  "dict_get d k dflt = (case dict_lookup d k of None \<Rightarrow> dflt | Some v \<Rightarrow> v)"

text \<open>\<open>xs.index(x)\<close>, which raises \<open>ValueError\<close> when \<open>x\<close> is not in the list.\<close>

datatype error = APIError | ValueError | KeyError | IndexError

fun list_index :: "'a list \<Rightarrow> 'a \<Rightarrow> error + nat" where
  "list_index [] x = Inl ValueError"
| "list_index (y # ys) x =
     (if y = x then Inr 0
      else (case list_index ys x of Inl e \<Rightarrow> Inl e | Inr i \<Rightarrow> Inr (Suc i)))"

section \<open>The remote worksheet\<close>

text \<open>
  A worksheet is a grid of text cells, row 1 being the header. Every operation of the
  remote service is one request; a request either fails with an error or succeeds. The
  field \<open>faults\<close> tells for the coming requests which of them fail (none when the list is
  used up), and \<open>calls\<close> keeps the requests made so far.
\<close>

datatype cell = Cell (cell_row: nat) (cell_col: nat) (cell_value: string)

datatype request =
    GetAllValues
  | RowValues nat
  | ColValues nat
  | UpdateCells "cell list"
  | AppendRow "string list"

record worksheet =
  title :: string
  cells :: "string list list"
  faults :: "bool list"
  calls :: "request list"

definition remote_call :: "worksheet \<Rightarrow> request \<Rightarrow> bool \<times> worksheet" where
  "remote_call ws rq =
     (case faults ws of
        [] \<Rightarrow> (False, ws\<lparr>calls := calls ws @ [rq]\<rparr>)
      | f # fs \<Rightarrow> (f, ws\<lparr>faults := fs, calls := calls ws @ [rq]\<rparr>))"

definition get_all_values :: "worksheet \<Rightarrow> (error + string list list) \<times> worksheet" where
  "get_all_values ws =
     (let (failed, ws1) = remote_call ws GetAllValues
      in if failed then (Inl APIError, ws1) else (Inr (cells ws1), ws1))"

text \<open>\<open>row_values(1)\<close>: the first row, empty for an empty sheet.\<close>

definition row_values1 :: "worksheet \<Rightarrow> (error + string list) \<times> worksheet" where
  "row_values1 ws =
     (let (failed, ws1) = remote_call ws (RowValues 1)
      in if failed then (Inl APIError, ws1)
         else (Inr (case cells ws1 of [] \<Rightarrow> [] | h # _ \<Rightarrow> h), ws1))"

text \<open>\<open>col_values(1)\<close>: the first cell of every row, the empty string for an empty row.\<close>

definition col_values1 :: "worksheet \<Rightarrow> (error + string list) \<times> worksheet" where
  "col_values1 ws =
     (let (failed, ws1) = remote_call ws (ColValues 1)
      in if failed then (Inl APIError, ws1)
         else (Inr (map (\<lambda>r. case r of [] \<Rightarrow> [] | c # _ \<Rightarrow> c) (cells ws1)), ws1))"

text \<open>
  Writing a cell beyond the rows or the columns present fills the gap with empty rows
  and empty cells, as a spreadsheet does. Rows and columns count from 1.
\<close>

definition pad :: "nat \<Rightarrow> 'a \<Rightarrow> 'a list \<Rightarrow> 'a list" where
  "pad n x xs = xs @ replicate (n - length xs) x"

definition set_cell :: "string list list \<Rightarrow> cell \<Rightarrow> string list list" where
  "set_cell g c =
     (let g1 = pad (cell_row c) [] g;
          r = pad (cell_col c) '''' (g1 ! (cell_row c - 1))
      in g1[cell_row c - 1 := r[cell_col c - 1 := cell_value c]])"

text \<open>
  \<open>update_cells\<close> sends all the cells in one request; a cell with row or column 0 has no
  address and the request is refused.
\<close>

definition update_cells :: "worksheet \<Rightarrow> cell list \<Rightarrow> (error + unit) \<times> worksheet" where
  "update_cells ws cs =
     (let (failed, ws1) = remote_call ws (UpdateCells cs)
      in if failed \<or> list_ex (\<lambda>c. cell_row c = 0 \<or> cell_col c = 0) cs
         then (Inl APIError, ws1)
         else (Inr (), ws1\<lparr>cells := foldl set_cell (cells ws1) cs\<rparr>))"


section \<open>sheets_service.py\<close>

text \<open>\<open>[dict(zip(header, row)) for row in all_values[1:]]\<close>\<close>

definition records_of :: "string list \<Rightarrow> string list list \<Rightarrow> py_dict list" where
  "records_of header all_values = map (\<lambda>row. zip header row) (tl all_values)"

text \<open>
  \<open>SheetsService._filter_unused_items\<close>: the loop over \<open>enumerate(records)\<close>, the index
  \<open>i\<close> carried along.
\<close>

fun filter_loop :: "nat \<Rightarrow> py_dict list \<Rightarrow> string option \<Rightarrow> (nat \<times> py_dict) list" where
  "filter_loop i [] language = []"
| "filter_loop i (row # rest) language =
     (let is_unused = (upper (dict_get row ''used'' '''') = ''FALSE'')
      in case language of
           Some l \<Rightarrow>
             (let lang_match = (lower (dict_get row ''language'' '''') = l)
              in if is_unused \<and> lang_match
                 then (i + 2, row) # filter_loop (Suc i) rest language
                 else filter_loop (Suc i) rest language)
         | None \<Rightarrow>
             (if is_unused
              then (i + 2, row) # filter_loop (Suc i) rest language
              else filter_loop (Suc i) rest language))"

definition filter_unused_items :: "py_dict list \<Rightarrow> string option \<Rightarrow> (nat \<times> py_dict) list" where
  "filter_unused_items records language = filter_loop 0 records language"

text \<open>The loop of \<open>SheetsService._reset_used_flags\<close> that collects the cells to write.\<close>

fun reset_loop :: "nat \<Rightarrow> py_dict list \<Rightarrow> string option \<Rightarrow> nat \<Rightarrow> cell list" where
  "reset_loop i [] language used_col_index = []"
| "reset_loop i (row # rest) language used_col_index =
     (case language of
        Some l \<Rightarrow>
          (if lower (dict_get row ''language'' '''') = l
           then Cell (i + 2) used_col_index ''FALSE'' # reset_loop (Suc i) rest language used_col_index
           else reset_loop (Suc i) rest language used_col_index)
      | None \<Rightarrow>
          Cell (i + 2) used_col_index ''FALSE'' # reset_loop (Suc i) rest language used_col_index)"

text \<open>
  \<open>SheetsService._reset_used_flags\<close>. Every exception ends in \<open>return False\<close>.
\<close>

definition reset_used_flags :: "worksheet \<Rightarrow> string option \<Rightarrow> bool \<times> worksheet" where
  "reset_used_flags worksheet language =
     (case get_all_values worksheet of
        (Inl e, ws1) \<Rightarrow> (False, ws1)
      | (Inr all_values, ws1) \<Rightarrow>
          if length all_values < 2 then (False, ws1)
          else
            (let header = hd all_values;
                 records = records_of header all_values
             in case list_index header ''used'' of
                  Inl e \<Rightarrow> (False, ws1)
                | Inr i \<Rightarrow>
                    (let used_col_index = i + 1;
                         updates = reset_loop 0 records language used_col_index
                     in if updates \<noteq> []
                        then (case update_cells ws1 updates of
                                (Inl e, ws2) \<Rightarrow> (False, ws2)
                              | (Inr u, ws2) \<Rightarrow> (True, ws2))
                        else (False, ws1))))"

text \<open>
  \<open>random.choice\<close>: \<open>rnd\<close> is the random draw, reduced to an index of the list;
  \<open>IndexError\<close> on an empty list.
\<close>

definition random_choice :: "'a list \<Rightarrow> nat \<Rightarrow> error + 'a" where
  "random_choice xs rnd = (if xs = [] then Inl IndexError else Inr (xs ! (rnd mod length xs)))"

text \<open>
  The end of \<open>SheetsService.get_unused_item\<close>: nothing for an empty list of unused
  items, else \<open>random.choice\<close> of them. Every exception in the function ends in
  \<open>return None, None\<close>, which is the result \<open>None\<close> here.
\<close>

definition choose_item :: "(nat \<times> py_dict) list \<Rightarrow> nat \<Rightarrow> (nat \<times> py_dict) option" where
  "choose_item unused_items rnd =
     (if unused_items = [] then None
      else (case random_choice unused_items rnd of Inl e \<Rightarrow> None | Inr it \<Rightarrow> Some it))"

text \<open>
  \<open>SheetsService.get_unused_item\<close>. After a reset the rows are read again and zipped
  with the header read before it.
\<close>

definition get_unused_item ::
  "worksheet \<Rightarrow> string option \<Rightarrow> nat \<Rightarrow> (nat \<times> py_dict) option \<times> worksheet" where
  "get_unused_item worksheet language rnd =
     (case get_all_values worksheet of
        (Inl e, ws1) \<Rightarrow> (None, ws1)
      | (Inr all_values, ws1) \<Rightarrow>
          if length all_values < 2 then (None, ws1)
          else
            (let header = hd all_values;
                 all_records = records_of header all_values;
                 unused_items = filter_unused_items all_records language
             in if unused_items = []
                then (case reset_used_flags ws1 language of
                        (True, ws2) \<Rightarrow>
                          (case get_all_values ws2 of
                             (Inl e, ws3) \<Rightarrow> (None, ws3)
                           | (Inr all_values2, ws3) \<Rightarrow>
                               (choose_item
                                  (filter_unused_items (records_of header all_values2) language)
                                  rnd, ws3))
                      | (False, ws2) \<Rightarrow> (None, ws2))
                else (choose_item unused_items rnd, ws1)))"

text \<open>
  \<open>SheetsService.mark_item_as_used\<close>. It returns nothing; the result here is the record
  it logs: \<open>Info\<close> after the write, a warning otherwise. \<open>now_str\<close> is the local time
  as formatted by the caller's clock.
\<close>

datatype log_record =
    Info_marked_as_used
  | Warning_columns_not_found
  | Warning_could_not_mark

definition mark_item_as_used :: "worksheet \<Rightarrow> nat \<Rightarrow> string \<Rightarrow> log_record \<times> worksheet" where
  "mark_item_as_used worksheet row_index now_str =
     (case row_values1 worksheet of
        (Inl e, ws1) \<Rightarrow> (Warning_could_not_mark, ws1)
      | (Inr header, ws1) \<Rightarrow>
          (case list_index header ''used'' of
             Inl e \<Rightarrow> (Warning_columns_not_found, ws1)
           | Inr i \<Rightarrow>
               (case list_index header ''date_used'' of
                  Inl e \<Rightarrow> (Warning_columns_not_found, ws1)
                | Inr j \<Rightarrow>
                    (let used_col = i + 1;
                         date_used_col = j + 1;
                         updates = [Cell row_index used_col ''TRUE'',
                                    Cell row_index date_used_col now_str]
                     in case update_cells ws1 updates of
                          (Inl e, ws2) \<Rightarrow> (Warning_could_not_mark, ws2)
                        | (Inr u, ws2) \<Rightarrow> (Info_marked_as_used, ws2)))))"

section \<open>dynamic_content_service.py\<close>

text \<open>
  \<open>app_config["data_sources"]\<close> is a dictionary of dictionaries, kept as a list of pairs
  like the others. The remote document store maps a spreadsheet URL and a worksheet name
  to the worksheet; \<open>sheets_service.get_worksheet\<close> returns \<open>None\<close> for a worksheet that
  cannot be opened.
\<close>

type_synonym data_sources = "(string \<times> py_dict) list"

type_synonym remote = "string \<times> string \<Rightarrow> worksheet option"

definition sources_get :: "data_sources \<Rightarrow> string \<Rightarrow> py_dict option" where
  "sources_get ds k = map_of (rev ds) k"

text \<open>\<open>d[k]\<close>, which raises \<open>KeyError\<close> for a missing key.\<close>

definition dict_item :: "py_dict \<Rightarrow> string \<Rightarrow> error + string" where
  "dict_item d k = (case dict_lookup d k of None \<Rightarrow> Inl KeyError | Some v \<Rightarrow> Inr v)"

definition get_worksheet :: "remote \<Rightarrow> string \<Rightarrow> string \<Rightarrow> worksheet option" where
  "get_worksheet remote spreadsheet_url worksheet_name = remote (spreadsheet_url, worksheet_name)"

definition msg_type_not_loaded :: string where
  "msg_type_not_loaded =
     ''Nepodarilo sa na'' @ [CHR 0xC4, CHR 0x8D, CHR 0xC3, CHR 0xAD] @ ''ta''
       @ [CHR 0xC5, CHR 0xA5] @ '' typ obsahu.''"

definition msg_not_available :: string where
  "msg_not_available =
     ''Obsah pre t'' @ [CHR 0xC3, CHR 0xBA] @ ''to t'' @ [CHR 0xC3, CHR 0xA9]
       @ ''mu nie je dostupn'' @ [CHR 0xC3, CHR 0xBD] @ ''.''"

definition msg_exhausted :: string where
  "msg_exhausted =
     ''V'' @ [CHR 0xC5, CHR 0xA1] @ ''etok obsah pre t'' @ [CHR 0xC3, CHR 0xBA]
       @ ''to kateg'' @ [CHR 0xC3, CHR 0xB3] @ ''riu sa vy'' @ [CHR 0xC4, CHR 0x8D]
       @ ''erpal.''"

text \<open>
  \<open>_get_rotating_content\<close> from the lookup of the content source on (the lines after
  the category row has been marked). \<open>rnd\<close> is the random draw of the selection and
  \<open>now_str\<close> the time of the mark.
\<close>

definition fetch_content ::
  "data_sources \<Rightarrow> string \<Rightarrow> nat \<Rightarrow> string \<Rightarrow> remote \<Rightarrow> (error + string \<times> string) \<times> remote" where
  "fetch_content data_sources content_type_key rnd now_str remote =
     (case sources_get data_sources content_type_key of
        None \<Rightarrow> (Inr ('''', ''''), remote)
      | Some content_config \<Rightarrow>
          if content_config = [] then (Inr ('''', ''''), remote)
          else
            (let header_text = dict_get content_config ''header_text'' ''''
             in case dict_item content_config ''spreadsheet_url'' of
                  Inl e \<Rightarrow> (Inl e, remote)
                | Inr url \<Rightarrow>
                   (case dict_item content_config ''worksheet_name'' of
                      Inl e \<Rightarrow> (Inl e, remote)
                    | Inr name \<Rightarrow>
                       (case get_worksheet remote url name of
                          None \<Rightarrow> (Inr (header_text, msg_not_available), remote)
                        | Some content_ws \<Rightarrow>
                           (case get_unused_item content_ws None rnd of
                              (None, ws1) \<Rightarrow>
                                (Inr (header_text, msg_exhausted), remote((url, name) \<mapsto> ws1))
                            | (Some (content_idx, content_data), ws1) \<Rightarrow>
                                if content_data = []
                                then (Inr (header_text, msg_exhausted),
                                      remote((url, name) \<mapsto> ws1))
                                else
                                  (let content_body = dict_get content_data ''content'' '''';
                                       (lg, ws2) = mark_item_as_used ws1 content_idx now_str
                                   in (Inr (header_text, content_body),
                                       remote((url, name) \<mapsto> ws2))))))))"

text \<open>
  \<open>_get_rotating_content\<close>. The function has no handler of its own: a \<open>KeyError\<close> of a
  configuration entry without \<open>spreadsheet_url\<close> or \<open>worksheet_name\<close> leaves it as an
  error.
\<close>

definition get_rotating_content ::
  "data_sources \<Rightarrow> string \<Rightarrow> nat \<Rightarrow> string \<Rightarrow> nat \<Rightarrow> string \<Rightarrow> remote
     \<Rightarrow> (error + string \<times> string) \<times> remote" where
  "get_rotating_content data_sources rotation_source_key rnd1 now1 rnd2 now2 remote =
     (case sources_get data_sources rotation_source_key of
        None \<Rightarrow> (Inr ('''', ''''), remote)
      | Some rotation_config \<Rightarrow>
          if rotation_config = [] then (Inr ('''', ''''), remote)
          else
            (case dict_item rotation_config ''spreadsheet_url'' of
               Inl e \<Rightarrow> (Inl e, remote)
             | Inr url \<Rightarrow>
                (case dict_item rotation_config ''worksheet_name'' of
                   Inl e \<Rightarrow> (Inl e, remote)
                 | Inr name \<Rightarrow>
                    (case get_worksheet remote url name of
                       None \<Rightarrow> (Inr ('''', ''''), remote)
                     | Some rotation_ws \<Rightarrow>
                        (case get_unused_item rotation_ws None rnd1 of
                           (None, ws1) \<Rightarrow>
                             (Inr (''Chyba'', msg_type_not_loaded), remote((url, name) \<mapsto> ws1))
                         | (Some (rot_idx, rot_data), ws1) \<Rightarrow>
                             if rot_data = []
                             then (Inr (''Chyba'', msg_type_not_loaded),
                                   remote((url, name) \<mapsto> ws1))
                             else
                               (case dict_lookup rot_data ''content'' of
                                  None \<Rightarrow> (Inr ('''', ''''), remote((url, name) \<mapsto> ws1))
                                | Some content_type_key \<Rightarrow>
                                    if content_type_key = ''''
                                    then (Inr ('''', ''''), remote((url, name) \<mapsto> ws1))
                                    else
                                      (let (lg, ws2) = mark_item_as_used ws1 rot_idx now1
                                       in fetch_content data_sources content_type_key rnd2 now2
                                            (remote((url, name) \<mapsto> ws2)))))))))"

section \<open>trigger_jobs.py\<close>


text \<open>\<open>check_if_job_ran\<close>: any exception of the scan ends in \<open>return True\<close>.\<close>

definition check_if_job_ran :: "worksheet \<Rightarrow> string \<Rightarrow> bool \<times> worksheet" where
  "check_if_job_ran worksheet job_key =
     (case col_values1 worksheet of
        (Inl e, ws1) \<Rightarrow> (True, ws1)
      | (Inr all_job_keys_in_sheet, ws1) \<Rightarrow>
          if job_key \<in> set all_job_keys_in_sheet then (True, ws1) else (False, ws1))"


text \<open>The check of the header row in \<open>main\<close>.\<close>

definition headers_valid :: "string list \<Rightarrow> bool" where
  "headers_valid headers =
     list_all (\<lambda>h. h \<in> set headers) [''job_key'', ''trigger_timestamp_utc'', ''status'']"





section \<open>Notions used in the statements\<close>

text \<open>The next request to the remote service fails.\<close>

definition next_request_fails :: "worksheet \<Rightarrow> bool" where
  "next_request_fails ws = (case faults ws of [] \<Rightarrow> False | f # _ \<Rightarrow> f)"

text \<open>Column A of a grid: the first cell of every row, the header row included.\<close>

definition column_A :: "string list list \<Rightarrow> string list" where
  "column_A g = map (\<lambda>r. case r of [] \<Rightarrow> [] | c # _ \<Rightarrow> c) g"

text \<open>
  The specification's reading of "the column named \<open>name\<close>": the cells below the header
  cell that holds \<open>name\<close>, wherever that header cell stands.
\<close>

definition spec_column_by_header_name :: "string list list \<Rightarrow> string \<Rightarrow> string list" where
  "spec_column_by_header_name g name =
     (case g of
        [] \<Rightarrow> []
      | header # rows \<Rightarrow>
          (case list_index header name of
             Inl e \<Rightarrow> []
           | Inr i \<Rightarrow> map (\<lambda>r. if i < length r then r ! i else '''') rows))"


section \<open>Notions of the selection store\<close>

text \<open>The header row of a grid, as \<open>row_values(1)\<close> reads it.\<close>

definition header_of :: "string list list \<Rightarrow> string list" where
  "header_of g = (case g of [] \<Rightarrow> [] | h # _ \<Rightarrow> h)"

text \<open>The text of the cell in row \<open>r\<close> and column \<open>c\<close> (both from 1), empty outside the grid.\<close>

definition cell_at :: "string list list \<Rightarrow> nat \<Rightarrow> nat \<Rightarrow> string" where
  "cell_at g r c =
     (if 1 \<le> r \<and> r \<le> length g \<and> 1 \<le> c \<and> c \<le> length (g ! (r - 1))
      then g ! (r - 1) ! (c - 1) else '''')"

text \<open>The two tests of \<open>_filter_unused_items\<close> on a row.\<close>

definition is_unused :: "py_dict \<Rightarrow> bool" where
  "is_unused row = (upper (dict_get row ''used'' '''') = ''FALSE'')"

definition lang_match :: "string option \<Rightarrow> py_dict \<Rightarrow> bool" where
  "lang_match language row =
     (case language of None \<Rightarrow> True | Some l \<Rightarrow> lower (dict_get row ''language'' '''') = l)"

text \<open>The records of a store: its data rows zipped with its header.\<close>

definition store_records :: "worksheet \<Rightarrow> py_dict list" where
  "store_records S = records_of (header_of (cells S)) (cells S)"

text \<open>The record of the row with Row Index \<open>idx\<close>.\<close>

definition record_at :: "worksheet \<Rightarrow> nat \<Rightarrow> py_dict" where
  "record_at S idx = zip (header_of (cells S)) (cells S ! (idx - 1))"

text \<open>Row Index \<open>idx\<close> is a data row of the store that passes both tests.\<close>

definition candidate :: "worksheet \<Rightarrow> string option \<Rightarrow> nat \<Rightarrow> bool" where
  "candidate S language idx =
     (2 \<le> idx \<and> idx \<le> length (cells S)
      \<and> is_unused (record_at S idx) \<and> lang_match language (record_at S idx))"

text \<open>The requests made by an operation that took the worksheet from \<open>S\<close> to \<open>S'\<close>.\<close>

definition new_calls :: "worksheet \<Rightarrow> worksheet \<Rightarrow> request list" where
  "new_calls S S' = drop (length (calls S)) (calls S')"

text \<open>The Row Indexes of the data rows that match the language filter, in ascending order.\<close>

definition matching_rows :: "worksheet \<Rightarrow> string option \<Rightarrow> nat list" where
  "matching_rows S language =
     filter (\<lambda>idx. lang_match language (record_at S idx)) [2..<Suc (length (cells S))]"

text \<open>The cells a reset writes: \<open>FALSE\<close> in column \<open>c\<close> of every matching row.\<close>

definition reset_cells :: "worksheet \<Rightarrow> string option \<Rightarrow> nat \<Rightarrow> cell list" where
  "reset_cells S language c = map (\<lambda>idx. Cell idx c ''FALSE'') (matching_rows S language)"

section \<open>Example inputs\<close>

text \<open>Ledgers and dispatcher slots.\<close>

definition ledger0 :: worksheet where
  "ledger0 =
     \<lparr>title = ''Jobs'',
      cells = [[''job_key'', ''trigger_timestamp_utc'', ''status'']],
      faults = [], calls = []\<rparr>"

definition ledger_offline :: worksheet where
  "ledger_offline =
     \<lparr>title = ''Jobs'',
      cells = [[''job_key'', ''trigger_timestamp_utc'', ''status'']],
      faults = [True], calls = []\<rparr>"

definition ledger_swapped :: worksheet where
  "ledger_swapped =
     \<lparr>title = ''Jobs'',
      cells = [[''status'', ''job_key'', ''trigger_timestamp_utc''],
               [''TRIGGERED'', ''time1_2025-03-14'', ''2025-03-14 06:00:05 UTC'']],
      faults = [], calls = []\<rparr>"



text \<open>Stores.\<close>

definition store_mixed :: worksheet where
  "store_mixed =
     \<lparr>title = ''Quotes'',
      cells = [[''content'', ''used''], [''a'', ''FALSE''], [''b'', ''false'']],
      faults = [], calls = []\<rparr>"

definition store_sk :: worksheet where
  "store_sk =
     \<lparr>title = ''Quotes'',
      cells = [[''content'', ''language'', ''used''], [''a'', ''slovak'', ''FALSE'']],
      faults = [], calls = []\<rparr>"

definition store_full :: worksheet where
  "store_full =
     \<lparr>title = ''Quotes'',
      cells = [[''content'', ''used'', ''date_used''],
               [''a'', ''FALSE'', ''''],
               [''b'', ''TRUE'', ''2025-03-13 07:00:02'']],
      faults = [], calls = []\<rparr>"

definition store_no_used :: worksheet where
  "store_no_used =
     \<lparr>title = ''Quotes'',
      cells = [[''content''], [''a'']],
      faults = [], calls = []\<rparr>"

definition store_spent :: worksheet where
  "store_spent =
     \<lparr>title = ''Quotes'',
      cells = [[''content'', ''language'', ''used'', ''date_used''],
               [''a'', ''english'', ''TRUE'', ''2025-03-12 07:00:01''],
               [''b'', ''Slovak'', '''', ''''],
               [''c'', ''English'', ''yes'', ''2025-03-13 07:00:02'']],
      faults = [], calls = []\<rparr>"

text \<open>Example configuration and stores of the rotation.\<close>

definition ds_demo :: data_sources where
  "ds_demo =
     [(''rotation'', [(''spreadsheet_url'', ''u''), (''worksheet_name'', ''Rotation'')]),
      (''jokes'', [(''header_text'', ''Joke''), (''spreadsheet_url'', ''u''),
                   (''worksheet_name'', ''Jokes'')])]"

definition store_rotation :: worksheet where
  "store_rotation =
     \<lparr>title = ''Rotation'',
      cells = [[''content'', ''used'', ''date_used''], [''riddles'', ''FALSE'', '''']],
      faults = [], calls = []\<rparr>"

definition store_rotation_blank :: worksheet where
  "store_rotation_blank =
     \<lparr>title = ''Rotation'',
      cells = [[''content'', ''used'', ''date_used''], ['''', ''FALSE'', '''']],
      faults = [], calls = []\<rparr>"

definition remote_demo :: remote where
  "remote_demo = (\<lambda>k. None)((''u'', ''Rotation'') \<mapsto> store_rotation)"

definition remote_blank :: remote where
  "remote_blank = (\<lambda>k. None)((''u'', ''Rotation'') \<mapsto> store_rotation_blank)"

section \<open>The remote requests\<close>

lemma remote_call_ok:
  "faults ws = [] \<Longrightarrow> remote_call ws rq = (False, ws\<lparr>calls := calls ws @ [rq]\<rparr>)"
  by (simp add: remote_call_def)

lemma remote_call_fst: "fst (remote_call ws rq) = next_request_fails ws"
  by (simp add: remote_call_def next_request_fails_def split: list.splits)

lemma remote_call_cells: "cells (snd (remote_call ws rq)) = cells ws"
  by (simp add: remote_call_def split: list.splits)

lemma remote_call_calls: "calls (snd (remote_call ws rq)) = calls ws @ [rq]"
  by (simp add: remote_call_def split: list.splits)

lemma remote_call_faults: "faults (snd (remote_call ws rq)) = tl (faults ws)"
  by (simp add: remote_call_def split: list.splits)

lemma next_request_fails_no_faults: "faults ws = [] \<Longrightarrow> \<not> next_request_fails ws"
  by (simp add: next_request_fails_def)


section \<open>Dictionaries and grids\<close>

lemma dict_lookup_Nil: "dict_lookup [] k = None"
  by (simp add: dict_lookup_def)

lemma dict_lookup_Cons:
  "dict_lookup ((a, b) # d) k =
     (case dict_lookup d k of Some v \<Rightarrow> Some v | None \<Rightarrow> if k = a then Some b else None)"
  by (simp add: dict_lookup_def map_add_def split: option.splits)

lemma dict_lookup_zip_notin: "k \<notin> set h \<Longrightarrow> dict_lookup (zip h row) k = None"
proof (induction h arbitrary: row)
  case Nil then show ?case by (simp add: dict_lookup_Nil)
next
  case (Cons a h)
  then show ?case by (cases row) (simp_all add: dict_lookup_Nil dict_lookup_Cons)
qed

lemma list_index_notin: "k \<notin> set h \<longleftrightarrow> list_index h k = Inl ValueError"
  by (induction h) (auto split: sum.splits)

lemma list_index_Inl: "list_index h k = Inl e \<Longrightarrow> e = ValueError \<and> k \<notin> set h"
  by (induction h arbitrary: e) (auto split: sum.splits if_splits)

lemma list_index_Inr: "list_index h k = Inr i \<Longrightarrow> i < length h \<and> h ! i = k \<and> k \<notin> set (take i h)"
proof (induction h arbitrary: i)
  case Nil then show ?case by simp
next
  case (Cons a h)
  then show ?case by (auto split: sum.splits if_splits)
qed

lemma dict_lookup_zip_once:
  "count_list h k = 1 \<Longrightarrow> list_index h k = Inr i \<Longrightarrow>
     dict_lookup (zip h row) k = (if i < length row then Some (row ! i) else None)"
proof (induction h arbitrary: row i)
  case Nil then show ?case by simp
next
  case (Cons a h)
  show ?case
  proof (cases row)
    case Nil then show ?thesis by (simp add: dict_lookup_Nil)
  next
    case (Cons x row')
    show ?thesis
    proof (cases "a = k")
      case True
      then have "k \<notin> set h" using Cons.prems(1) by (simp add: count_list_0_iff)
      then show ?thesis using True Cons.prems(2) Cons
        by (simp add: dict_lookup_Cons dict_lookup_zip_notin)
    next
      case False
      then obtain i' where i': "list_index h k = Inr i'" "i = Suc i'"
        using Cons.prems(2) by (auto split: sum.splits)
      have "count_list h k = 1" using False Cons.prems(1) by simp
      from Cons.IH[OF this i'(1), of row'] show ?thesis
        using False i' Cons by (simp add: dict_lookup_Cons)
    qed
  qed
qed

lemma dict_get_zip_once:
  "count_list h k = 1 \<Longrightarrow> list_index h k = Inr i \<Longrightarrow>
     dict_get (zip h row) k '''' = (if i < length row then row ! i else '''')"
  by (simp add: dict_get_def dict_lookup_zip_once)

lemma dict_get_zip_notin: "k \<notin> set h \<Longrightarrow> dict_get (zip h row) k '''' = ''''"
  by (simp add: dict_get_def dict_lookup_zip_notin)

lemma dict_lookup_Some_in: "dict_lookup d k = Some v \<Longrightarrow> (k, v) \<in> set d"
  by (auto simp: dict_lookup_def dest: map_of_SomeD)

subsection \<open>Writing cells\<close>

lemma length_pad: "length (pad n x xs) = max n (length xs)"
  by (simp add: pad_def)

lemma nth_pad: "i < length xs \<Longrightarrow> pad n x xs ! i = xs ! i"
  by (simp add: pad_def nth_append)

lemma nth_pad_new: "length xs \<le> i \<Longrightarrow> i < n \<Longrightarrow> pad n x xs ! i = x"
  by (simp add: pad_def nth_append)

lemma length_set_cell: "length (set_cell g (Cell r c v)) = max r (length g)"
  by (simp add: set_cell_def Let_def length_pad)

lemma nth_set_cell_other:
  "k \<noteq> r - 1 \<Longrightarrow> k < length g \<Longrightarrow> set_cell g (Cell r c v) ! k = g ! k"
  by (simp add: set_cell_def Let_def length_pad nth_pad)

lemma nth_set_cell_gap:
  "length g \<le> k \<Longrightarrow> Suc k < r \<Longrightarrow> set_cell g (Cell r c v) ! k = []"
  by (simp add: set_cell_def Let_def length_pad nth_pad_new)

lemma nth_set_cell_same:
  "set_cell g (Cell (Suc k) (Suc j) v) ! k =
     (pad (Suc j) '''' (if k < length g then g ! k else []))[j := v]"
  by (simp add: set_cell_def Let_def length_pad nth_pad nth_pad_new)

lemma cell_at_Suc:
  "cell_at g (Suc k) (Suc j) = (if k < length g \<and> j < length (g ! k) then g ! k ! j else '''')"
  by (auto simp: cell_at_def)

lemma cell_at_0: "cell_at g 0 c = ''''" "cell_at g r 0 = ''''"
  by (simp_all add: cell_at_def)

lemma padded_row_nth:
  "(if j' < length ((pad (Suc j) '''' rw)[j := v]) then (pad (Suc j) '''' rw)[j := v] ! j' else '''')
     = (if j' = j then v else if j' < length rw then rw ! j' else '''')"
  by (auto simp: pad_def nth_list_update nth_append)

lemma cell_at_set_cell_Suc:
  "cell_at (set_cell g (Cell (Suc k) (Suc j) v)) (Suc k') (Suc j')
     = (if k' = k \<and> j' = j then v else cell_at g (Suc k') (Suc j'))"
proof (cases "k' = k")
  case True
  let ?rw = "if k < length g then g ! k else []"
  have "cell_at (set_cell g (Cell (Suc k) (Suc j) v)) (Suc k) (Suc j')
          = (if j' < length ((pad (Suc j) '''' ?rw)[j := v])
             then (pad (Suc j) '''' ?rw)[j := v] ! j' else '''')"
    by (simp add: cell_at_Suc length_set_cell nth_set_cell_same del: length_list_update)
  also have "\<dots> = (if j' = j then v else if j' < length ?rw then ?rw ! j' else '''')"
    by (rule padded_row_nth)
  finally show ?thesis using True by (simp add: cell_at_Suc)
next
  case False
  show ?thesis
  proof (cases "k' < length g")
    case True
    then have "set_cell g (Cell (Suc k) (Suc j) v) ! k' = g ! k'"
      using False by (intro nth_set_cell_other) auto
    then show ?thesis using True False by (auto simp: cell_at_Suc length_set_cell)
  next
    case out: False
    show ?thesis
    proof (cases "k' < k")
      case True
      then have "set_cell g (Cell (Suc k) (Suc j) v) ! k' = []"
        using out by (intro nth_set_cell_gap) auto
      then show ?thesis using out False by (auto simp: cell_at_Suc)
    next
      case False
      then show ?thesis using out \<open>k' \<noteq> k\<close> by (auto simp: cell_at_Suc length_set_cell)
    qed
  qed
qed

lemma cell_at_set_cell:
  assumes "1 \<le> r" "1 \<le> c"
  shows "cell_at (set_cell g (Cell r c v)) r' c' = (if r' = r \<and> c' = c then v else cell_at g r' c')"
proof -
  obtain k j where r: "r = Suc k" and c: "c = Suc j"
    using assms by (metis One_nat_def Suc_le_D)
  show ?thesis
  proof (cases "r' = 0 \<or> c' = 0")
    case True
    then show ?thesis using r c by (auto simp: cell_at_0)
  next
    case False
    then obtain k' j' where "r' = Suc k'" "c' = Suc j'"
      by (metis not0_implies_Suc)
    then show ?thesis using r c by (simp add: cell_at_set_cell_Suc)
  qed
qed

lemma foldl_set_cell_snoc: "foldl set_cell g (cs @ [x]) = set_cell (foldl set_cell g cs) x"
  by simp

lemma cell_at_set_cell': 
  "1 \<le> cell_row x \<Longrightarrow> 1 \<le> cell_col x \<Longrightarrow>
   cell_at (set_cell g x) r c = (if r = cell_row x \<and> c = cell_col x then cell_value x else cell_at g r c)"
  using cell_at_set_cell[of "cell_row x" "cell_col x" g "cell_value x" r c] by (cases x) simp

lemma cell_at_foldl_other:
  "\<forall>x\<in>set cs. 1 \<le> cell_row x \<and> 1 \<le> cell_col x \<Longrightarrow>
   \<forall>x\<in>set cs. \<not> (cell_row x = r \<and> cell_col x = c) \<Longrightarrow>
   cell_at (foldl set_cell g cs) r c = cell_at g r c"
  by (induction cs rule: rev_induct) (auto simp: cell_at_set_cell')

lemma cell_at_foldl_const:
  "\<forall>x\<in>set cs. 1 \<le> cell_row x \<and> 1 \<le> cell_col x \<Longrightarrow>
   \<forall>x\<in>set cs. cell_row x = r \<and> cell_col x = c \<longrightarrow> cell_value x = v \<Longrightarrow>
   \<exists>x\<in>set cs. cell_row x = r \<and> cell_col x = c \<Longrightarrow>
   cell_at (foldl set_cell g cs) r c = v"
proof (induction cs rule: rev_induct)
  case Nil then show ?case by simp
next
  case (snoc x cs)
  show ?case
  proof (cases "cell_row x = r \<and> cell_col x = c")
    case True
    then show ?thesis using snoc.prems by (simp add: cell_at_set_cell')
  next
    case False
    then have "\<exists>x\<in>set cs. cell_row x = r \<and> cell_col x = c" using snoc.prems(3) by auto
    then have "cell_at (foldl set_cell g cs) r c = v" using snoc by simp
    then show ?thesis using False snoc.prems(1) by (auto simp: cell_at_set_cell')
  qed
qed

lemma length_set_cell': "length (set_cell g x) = max (cell_row x) (length g)"
  using length_set_cell[of g "cell_row x" "cell_col x" "cell_value x"] by (cases x) simp

lemma length_foldl_set_cell:
  "\<forall>x\<in>set cs. cell_row x \<le> length g \<Longrightarrow> length (foldl set_cell g cs) = length g"
  by (induction cs rule: rev_induct) (simp_all add: length_set_cell')

lemma nth_set_cell_other': "k \<noteq> cell_row x - 1 \<Longrightarrow> k < length g \<Longrightarrow> set_cell g x ! k = g ! k"
  using nth_set_cell_other[of k "cell_row x" g "cell_col x" "cell_value x"] by (cases x) simp

lemma length_foldl_set_cell_ge: "length g \<le> length (foldl set_cell g cs)"
  by (induction cs rule: rev_induct) (simp_all add: length_set_cell')

lemma nth_foldl_set_cell_other:
  "\<forall>x\<in>set cs. 1 \<le> cell_row x \<and> cell_row x \<noteq> Suc k \<Longrightarrow> k < length g \<Longrightarrow>
     foldl set_cell g cs ! k = g ! k"
proof (induction cs rule: rev_induct)
  case Nil then show ?case by simp
next
  case (snoc x cs)
  have "k < length (foldl set_cell g cs)"
    using snoc.prems(2) length_foldl_set_cell_ge[of g cs] by simp
  moreover have "k \<noteq> cell_row x - 1" using snoc.prems(1) by (cases "cell_row x") auto
  ultimately show ?case using snoc by (simp add: nth_set_cell_other')
qed

lemma header_of_foldl_set_cell:
  "\<forall>x\<in>set cs. 2 \<le> cell_row x \<Longrightarrow> g \<noteq> [] \<Longrightarrow> header_of (foldl set_cell g cs) = header_of g"
proof -
  assume a: "\<forall>x\<in>set cs. 2 \<le> cell_row x" and g: "g \<noteq> []"
  have "foldl set_cell g cs ! 0 = g ! 0"
    by (rule nth_foldl_set_cell_other) (use a g in auto)
  moreover have "foldl set_cell g cs \<noteq> []"
    using length_foldl_set_cell_ge[of g cs] g by auto
  ultimately show ?thesis using g
    by (cases g; cases "foldl set_cell g cs") (simp_all add: header_of_def)
qed

subsection \<open>The two loops as list comprehensions\<close>

lemma upt_filter_Suc:
  "filter P [0..<Suc n] = (if P 0 then [0] else []) @ map Suc (filter (P \<circ> Suc) [0..<n])"
proof -
  have "[0..<Suc n] = 0 # map Suc [0..<n]"
    by (simp add: upt_conv_Cons map_Suc_upt del: upt_Suc)
  then show ?thesis by (simp add: filter_map del: upt_Suc)
qed

lemma filter_loop_eq:
  "filter_loop i rs language =
     map (\<lambda>j. (i + j + 2, rs ! j))
       (filter (\<lambda>j. is_unused (rs ! j) \<and> lang_match language (rs ! j)) [0..<length rs])"
proof (induction rs arbitrary: i)
  case Nil then show ?case by simp
next
  case (Cons row rest)
  show ?case
    using Cons.IH[of "Suc i"]
    by (cases language)
       (simp_all add: upt_filter_Suc is_unused_def lang_match_def Let_def comp_def
          del: upt_Suc)
qed

lemma reset_loop_eq:
  "reset_loop i rs language c =
     map (\<lambda>j. Cell (i + j + 2) c ''FALSE'')
       (filter (\<lambda>j. lang_match language (rs ! j)) [0..<length rs])"
proof (induction rs arbitrary: i)
  case Nil then show ?case by simp
next
  case (Cons row rest)
  show ?case
    using Cons.IH[of "Suc i"]
    by (cases language)
       (simp_all add: upt_filter_Suc lang_match_def comp_def del: upt_Suc)
qed

section \<open>Selection\<close>

lemma length_store_records: "length (store_records S) = length (cells S) - 1"
  by (simp add: store_records_def records_of_def)

lemma nth_store_records:
  "j < length (cells S) - 1 \<Longrightarrow> store_records S ! j = record_at S (Suc (Suc j))"
  by (simp add: store_records_def records_of_def record_at_def nth_tl)

lemma candidate_shift:
  "j < length (cells S) - 1 \<Longrightarrow>
     candidate S language (Suc (Suc j)) \<longleftrightarrow>
       is_unused (store_records S ! j) \<and> lang_match language (store_records S ! j)"
  by (auto simp: candidate_def nth_store_records)

lemma filter_unused_items_store:
  "filter_unused_items (store_records S) language =
     map (\<lambda>idx. (idx, record_at S idx))
       (filter (candidate S language) [2..<Suc (length (cells S))])"
proof -
  let ?n = "length (cells S) - 1"
  let ?rs = "store_records S"
  have upt: "[2..<Suc (length (cells S))] = map (\<lambda>j. j + 2) [0..<?n]"
  proof (cases "cells S")
    case Nil then show ?thesis by simp
  next
    case (Cons a list)
    show ?thesis using map_add_upt[of 2 "length list"] Cons
      by (simp add: numeral_2_eq_2 del: upt_Suc)
  qed
  have "filter_unused_items ?rs language =
          map (\<lambda>j. (j + 2, ?rs ! j))
            (filter (\<lambda>j. is_unused (?rs ! j) \<and> lang_match language (?rs ! j)) [0..<?n])"
    by (simp add: filter_unused_items_def filter_loop_eq length_store_records)
  also have "filter (\<lambda>j. is_unused (?rs ! j) \<and> lang_match language (?rs ! j)) [0..<?n]
               = filter (\<lambda>j. candidate S language (j + 2)) [0..<?n]"
    by (rule filter_cong) (simp_all add: candidate_shift)
  also have "map (\<lambda>j. (j + 2, ?rs ! j)) (filter (\<lambda>j. candidate S language (j + 2)) [0..<?n])
               = map (\<lambda>j. (j + 2, record_at S (j + 2)))
                   (filter (\<lambda>j. candidate S language (j + 2)) [0..<?n])"
    by (rule map_cong) (simp_all add: nth_store_records)
  also have "\<dots> = map (\<lambda>idx. (idx, record_at S idx))
                     (filter (candidate S language) [2..<Suc (length (cells S))])"
    unfolding upt by (simp add: filter_map comp_def)
  finally show ?thesis .
qed

lemma get_all_values_eq:
  "get_all_values ws =
     (if next_request_fails ws then Inl APIError else Inr (cells ws),
      snd (remote_call ws GetAllValues))"
  using remote_call_fst[of ws GetAllValues] remote_call_cells[of ws GetAllValues]
  by (auto simp: get_all_values_def split: prod.splits)

lemma hd_header_of: "g \<noteq> [] \<Longrightarrow> hd g = header_of g"
  by (cases g) (simp_all add: header_of_def)

lemma records_of_store: "cells S \<noteq> [] \<Longrightarrow> records_of (hd (cells S)) (cells S) = store_records S"
  by (simp add: store_records_def hd_header_of)

lemma choose_item_nonempty:
  "xs \<noteq> [] \<Longrightarrow> choose_item xs rnd = Some (xs ! (rnd mod length xs))"
  by (simp add: choose_item_def random_choice_def)

lemma choose_item_empty: "choose_item [] rnd = None"
  by (simp add: choose_item_def)

lemma choose_item_in: "choose_item xs rnd = Some x \<Longrightarrow> x \<in> set xs"
  by (cases "xs = []") (auto simp: choose_item_nonempty choose_item_empty)

lemma filter_unused_nonempty_length:
  "filter_unused_items (store_records S) language \<noteq> [] \<Longrightarrow> 2 \<le> length (cells S)"
  by (cases "cells S"; cases "tl (cells S)")
     (auto simp: filter_unused_items_def store_records_def records_of_def)

lemma get_unused_item_direct:
  assumes "\<not> next_request_fails S"
    and "filter_unused_items (store_records S) language \<noteq> []"
  shows "get_unused_item S language rnd =
           (choose_item (filter_unused_items (store_records S) language) rnd,
            snd (remote_call S GetAllValues))"
proof -
  have len: "2 \<le> length (cells S)" using assms(2) by (rule filter_unused_nonempty_length)
  then have ne: "cells S \<noteq> []" by auto
  show ?thesis
    using assms len
    by (simp add: get_unused_item_def get_all_values_eq records_of_store[OF ne] Let_def)
qed

lemma distinct_index_card:
  assumes "distinct xs" "x \<in> set xs"
  shows "card {k. k < length xs \<and> xs ! k = x} = 1"
proof -
  obtain i where i: "i < length xs" "xs ! i = x"
    using assms(2) by (auto simp: in_set_conv_nth)
  have "{k. k < length xs \<and> xs ! k = x} = {i}"
    using i assms(1) by (auto simp: nth_eq_iff_index_eq)
  then show ?thesis by simp
qed

lemma distinct_filter_unused:
  "distinct (filter_unused_items (store_records S) language)"
  by (simp add: filter_unused_items_store distinct_map inj_on_def)

lemma candidate_in_filter:
  "(idx, rec) \<in> set (filter_unused_items (store_records S) language)
     \<longleftrightarrow> candidate S language idx \<and> rec = record_at S idx"
  by (auto simp: filter_unused_items_store candidate_def)

lemma finite_candidates: "finite {idx. candidate S language idx}"
proof -
  have "{idx. candidate S language idx} \<subseteq> {..length (cells S)}"
    by (auto simp: candidate_def)
  then show ?thesis by (rule finite_subset) simp
qed

lemma set_candidates:
  "set (filter (candidate S language) [2..<Suc (length (cells S))]) = {idx. candidate S language idx}"
  by (auto simp: candidate_def)

lemma length_filter_unused_items:
  "length (filter_unused_items (store_records S) language) = card {idx. candidate S language idx}"
proof -
  have "length (filter_unused_items (store_records S) language)
          = length (filter (candidate S language) [2..<Suc (length (cells S))])"
    by (simp add: filter_unused_items_store)
  also have "\<dots> = card (set (filter (candidate S language) [2..<Suc (length (cells S))]))"
    by (rule distinct_card[symmetric]) simp
  finally show ?thesis by (simp only: set_candidates)
qed

text \<open>
  C1, as the code has it. When the read of the sheet succeeds and the store has a data
  row that passes the tests of the filter (its \<open>used\<close> text is \<open>FALSE\<close> in any letter
  case, its language matches when a filter is given), \<open>get_unused_item\<close> returns a Row
  Index from 2 on within the sheet together with the record of that row, a row that
  passes the tests, and writes nothing. The choice is uniform over the candidates: with
  \<open>n\<close> candidates, each candidate is the result for exactly one of the \<open>n\<close> values of the
  random index.
\<close>

theorem get_unused_item_returns_candidate:
  assumes "\<not> next_request_fails S"
    and "candidate S language i0"
  shows "(\<exists>idx. fst (get_unused_item S language rnd) = Some (idx, record_at S idx)
            \<and> 2 \<le> idx \<and> idx \<le> length (cells S)
            \<and> upper (dict_get (record_at S idx) ''used'' '''') = ''FALSE''
            \<and> lang_match language (record_at S idx))
       \<and> cells (snd (get_unused_item S language rnd)) = cells S
       \<and> (\<forall>idx. candidate S language idx \<longrightarrow>
             card {k. k < card {i. candidate S language i}
                      \<and> fst (get_unused_item S language k) = Some (idx, record_at S idx)} = 1)"
proof -
  let ?cs = "filter_unused_items (store_records S) language"
  have in0: "(i0, record_at S i0) \<in> set ?cs"
    using assms(2) by (simp add: candidate_in_filter)
  then have ne: "?cs \<noteq> []" by auto
  have res: "fst (get_unused_item S language r) = Some (?cs ! (r mod length ?cs))" for r
    using get_unused_item_direct[OF assms(1) ne] ne by (simp add: choose_item_nonempty)
  obtain idx rec where pr: "?cs ! (rnd mod length ?cs) = (idx, rec)"
    by (cases "?cs ! (rnd mod length ?cs)")
  have "?cs ! (rnd mod length ?cs) \<in> set ?cs" using ne by simp
  then have "(idx, rec) \<in> set ?cs" using pr by simp
  then have idx: "?cs ! (rnd mod length ?cs) = (idx, record_at S idx)"
    "candidate S language idx"
    using pr by (simp_all add: candidate_in_filter)
  have a: "\<exists>idx. fst (get_unused_item S language rnd) = Some (idx, record_at S idx)
            \<and> 2 \<le> idx \<and> idx \<le> length (cells S)
            \<and> upper (dict_get (record_at S idx) ''used'' '''') = ''FALSE''
            \<and> lang_match language (record_at S idx)"
    using idx res[of rnd] by (auto simp: candidate_def is_unused_def)
  have b: "cells (snd (get_unused_item S language rnd)) = cells S"
    using get_unused_item_direct[OF assms(1) ne] by (simp add: remote_call_cells)
  have c: "card {k. k < card {i. candidate S language i}
                      \<and> fst (get_unused_item S language k) = Some (idx, record_at S idx)} = 1"
    if "candidate S language idx" for idx
  proof -
    have mem: "(idx, record_at S idx) \<in> set ?cs" using that by (simp add: candidate_in_filter)
    have "{k. k < card {i. candidate S language i}
              \<and> fst (get_unused_item S language k) = Some (idx, record_at S idx)}
          = {k. k < length ?cs \<and> ?cs ! k = (idx, record_at S idx)}"
      by (auto simp: res length_filter_unused_items[symmetric])
    then show ?thesis
      using distinct_index_card[OF distinct_filter_unused mem] by simp
  qed
  show ?thesis using a b c by blast
qed

theorem get_unused_item_returns_candidate_witness:
  "\<not> next_request_fails store_mixed \<and> candidate store_mixed None 3
   \<and> (\<exists>idx. fst (get_unused_item store_mixed None 0) = Some (idx, record_at store_mixed idx)
          \<and> 2 \<le> idx \<and> idx \<le> length (cells store_mixed)
          \<and> upper (dict_get (record_at store_mixed idx) ''used'' '''') = ''FALSE'')
   \<and> cells (snd (get_unused_item store_mixed None 0)) = cells store_mixed"
proof -
  have h1: "\<not> next_request_fails store_mixed" by code_simp
  have h2: "candidate store_mixed None 3" by code_simp
  show ?thesis
    using get_unused_item_returns_candidate[OF h1 h2, of 0] h1 h2 by blast
qed

text \<open>
  C1, as the specification states it, fails: the returned record need not hold the text
  \<open>FALSE\<close> itself. Row 2 of this store holds \<open>FALSE\<close>; the row returned for the random
  index 1 is row 3, whose \<open>used\<close> text is \<open>false\<close>.
\<close>

theorem get_unused_item_exact_FALSE_counterexample:
  "\<not> next_request_fails store_mixed
   \<and> dict_get (record_at store_mixed 2) ''used'' '''' = ''FALSE''
   \<and> fst (get_unused_item store_mixed None 1) = Some (3, record_at store_mixed 3)
   \<and> dict_get (record_at store_mixed 3) ''used'' '''' \<noteq> ''FALSE''"
  by code_simp

lemma lower_char_idem: "lower_char (lower_char c) = lower_char c"
  by (simp add: lower_char_def Let_def)

lemma lower_idem: "lower (lower s) = lower s"
  by (simp add: lower_def lower_char_idem)

lemma filter_unused_items_iff:
  "(idx, rec) \<in> set (filter_unused_items records language) \<longleftrightarrow>
     2 \<le> idx \<and> idx < length records + 2 \<and> rec = records ! (idx - 2)
     \<and> is_unused rec \<and> lang_match language rec"
proof
  assume "(idx, rec) \<in> set (filter_unused_items records language)"
  then show "2 \<le> idx \<and> idx < length records + 2 \<and> rec = records ! (idx - 2)
     \<and> is_unused rec \<and> lang_match language rec"
    by (auto simp: filter_unused_items_def filter_loop_eq)
next
  assume a: "2 \<le> idx \<and> idx < length records + 2 \<and> rec = records ! (idx - 2)
     \<and> is_unused rec \<and> lang_match language rec"
  then have "idx = 0 + (idx - 2) + 2" "idx - 2 < length records" by auto
  then show "(idx, rec) \<in> set (filter_unused_items records language)"
    using a unfolding filter_unused_items_def filter_loop_eq set_map
    by (intro image_eqI[where x = "idx - 2"]) auto
qed

lemma reset_loop_iff:
  "Cell r c v \<in> set (reset_loop 0 records language c') \<longleftrightarrow>
     c = c' \<and> v = ''FALSE'' \<and> 2 \<le> r \<and> r < length records + 2
     \<and> lang_match language (records ! (r - 2))"
proof
  assume "Cell r c v \<in> set (reset_loop 0 records language c')"
  then show "c = c' \<and> v = ''FALSE'' \<and> 2 \<le> r \<and> r < length records + 2
     \<and> lang_match language (records ! (r - 2))"
    by (auto simp: reset_loop_eq)
next
  assume a: "c = c' \<and> v = ''FALSE'' \<and> 2 \<le> r \<and> r < length records + 2
     \<and> lang_match language (records ! (r - 2))"
  then have "r = 0 + (r - 2) + 2" "r - 2 < length records" by auto
  then show "Cell r c v \<in> set (reset_loop 0 records language c')"
    using a unfolding reset_loop_eq set_map
    by (intro image_eqI[where x = "r - 2"]) auto
qed

lemma get_unused_item_sound:
  "fst (get_unused_item S language rnd) = Some (idx, rec) \<Longrightarrow>
     is_unused rec \<and> lang_match language rec"
  by (auto simp: get_unused_item_def Let_def filter_unused_items_iff
      split: prod.splits sum.splits if_splits bool.splits dest!: choose_item_in)


text \<open>
  C6, as the code has it. With a language filter \<open>f\<close>, the candidates of
  \<open>_filter_unused_items\<close> are exactly the rows whose \<open>used\<close> text is \<open>FALSE\<close> in any letter
  case and whose \<open>language\<close> text, put in lower case, equals \<open>f\<close> as it is given; the reset
  takes the rows by the same comparison. A row returned by \<open>get_unused_item\<close> never
  differs from \<open>f\<close> in more than letter case. When \<open>f\<close> is in lower case the candidates
  are the rows that equal \<open>f\<close> up to letter case; when \<open>f\<close> has an upper-case letter
  there is no candidate and nothing is returned.
\<close>

theorem language_filter_lowers_cell_only:
  "((idx, rec) \<in> set (filter_unused_items records (Some f)) \<longleftrightarrow>
        2 \<le> idx \<and> idx < length records + 2 \<and> rec = records ! (idx - 2)
        \<and> upper (dict_get rec ''used'' '''') = ''FALSE''
        \<and> lower (dict_get rec ''language'' '''') = f)
   \<and> (Cell r c v \<in> set (reset_loop 0 records (Some f) c') \<longleftrightarrow>
        c = c' \<and> v = ''FALSE'' \<and> 2 \<le> r \<and> r < length records + 2
        \<and> lower (dict_get (records ! (r - 2)) ''language'' '''') = f)
   \<and> (fst (get_unused_item S (Some f) rnd) = Some (i, d) \<longrightarrow>
        upper (dict_get d ''used'' '''') = ''FALSE''
        \<and> lower (dict_get d ''language'' '''') = lower f)
   \<and> (lower f = f \<longrightarrow>
        ((idx, rec) \<in> set (filter_unused_items records (Some f)) \<longleftrightarrow>
           2 \<le> idx \<and> idx < length records + 2 \<and> rec = records ! (idx - 2)
           \<and> upper (dict_get rec ''used'' '''') = ''FALSE''
           \<and> lower (dict_get rec ''language'' '''') = lower f))
   \<and> (lower f \<noteq> f \<longrightarrow>
        filter_unused_items records (Some f) = []
        \<and> fst (get_unused_item S (Some f) rnd) = None)"
proof -
  have a: "(idx, rec) \<in> set (filter_unused_items records (Some f)) \<longleftrightarrow>
        2 \<le> idx \<and> idx < length records + 2 \<and> rec = records ! (idx - 2)
        \<and> upper (dict_get rec ''used'' '''') = ''FALSE''
        \<and> lower (dict_get rec ''language'' '''') = f" for idx rec
    by (simp add: filter_unused_items_iff is_unused_def lang_match_def)
  have b: "Cell r c v \<in> set (reset_loop 0 records (Some f) c') \<longleftrightarrow>
        c = c' \<and> v = ''FALSE'' \<and> 2 \<le> r \<and> r < length records + 2
        \<and> lower (dict_get (records ! (r - 2)) ''language'' '''') = f"
    by (simp add: reset_loop_iff lang_match_def)
  have snd: "upper (dict_get d' ''used'' '''') = ''FALSE'' \<and> lower (dict_get d' ''language'' '''') = f"
    if "fst (get_unused_item S (Some f) rnd) = Some (i', d')" for i' d'
    using get_unused_item_sound[OF that] by (simp add: is_unused_def lang_match_def)
  have c: "fst (get_unused_item S (Some f) rnd) = Some (i, d) \<longrightarrow>
        upper (dict_get d ''used'' '''') = ''FALSE''
        \<and> lower (dict_get d ''language'' '''') = lower f"
  proof
    assume r: "fst (get_unused_item S (Some f) rnd) = Some (i, d)"
    from snd[OF r] have l: "lower (dict_get d ''language'' '''') = f" by simp
    have "lower (lower (dict_get d ''language'' '''')) = lower f" by (simp only: l)
    then have "lower (dict_get d ''language'' '''') = lower f" by (simp only: lower_idem)
    then show "upper (dict_get d ''used'' '''') = ''FALSE''
        \<and> lower (dict_get d ''language'' '''') = lower f"
      using snd[OF r] by blast
  qed
  have e: "filter_unused_items records (Some f) = [] \<and> fst (get_unused_item S (Some f) rnd) = None"
    if nf: "lower f \<noteq> f"
  proof -
    have no: "lower x \<noteq> f" for x
    proof
      assume x: "lower x = f"
      have "lower f = lower (lower x)" by (simp only: x)
      also have "\<dots> = lower x" by (rule lower_idem)
      finally show False using nf x by simp
    qed
    have "(idx, rec) \<notin> set (filter_unused_items records (Some f))" for idx rec
      using a no by blast
    then have "set (filter_unused_items records (Some f)) = {}"
      by (cases "filter_unused_items records (Some f)") (auto simp: prod_eq_iff)
    moreover have "fst (get_unused_item S (Some f) rnd) = None"
    proof (cases "fst (get_unused_item S (Some f) rnd)")
      case None then show ?thesis .
    next
      case (Some p)
      then have "fst (get_unused_item S (Some f) rnd) = Some (fst p, snd p)" by simp
      from snd[OF this] no show ?thesis by blast
    qed
    ultimately show ?thesis by simp
  qed
  show ?thesis using a b c e by simp
qed

theorem language_filter_lowers_cell_only_witness:
  "(2, record_at store_sk 2) \<in> set (filter_unused_items (store_records store_sk) (Some ''slovak''))
   \<and> fst (get_unused_item store_sk (Some ''slovak'') 0) = Some (2, record_at store_sk 2)
   \<and> lower (dict_get (record_at store_sk 2) ''language'' '''') = lower ''slovak''
   \<and> lower ''Slovak'' \<noteq> ''Slovak''
   \<and> filter_unused_items (store_records store_sk) (Some ''Slovak'') = []"
proof -
  have h1: "fst (get_unused_item store_sk (Some ''slovak'') 0) = Some (2, record_at store_sk 2)"
    by code_simp
  have h2: "lower ''Slovak'' \<noteq> ''Slovak''" by code_simp
  have h3: "2 < length (store_records store_sk) + 2
     \<and> record_at store_sk 2 = store_records store_sk ! (2 - 2)
     \<and> upper (dict_get (record_at store_sk 2) ''used'' '''') = ''FALSE''
     \<and> lower (dict_get (record_at store_sk 2) ''language'' '''') = ''slovak''"
    by code_simp
  show ?thesis
    using language_filter_lowers_cell_only
            [of 2 "record_at store_sk 2" "store_records store_sk" "''slovak''" 2 1 "''FALSE''" 1
                store_sk 0 2 "record_at store_sk 2"]
      language_filter_lowers_cell_only
            [of 2 "record_at store_sk 2" "store_records store_sk" "''Slovak''" 2 1 "''FALSE''" 1
                store_sk 0 2 "record_at store_sk 2"]
      h1 h2 h3
    by simp
qed

text \<open>
  C6, as the specification states it, fails: row 2 of this store is unused and its
  language is \<open>slovak\<close>, which equals the filter \<open>Slovak\<close> up to letter case; the row is
  no candidate and nothing is returned.
\<close>

theorem language_filter_any_case_counterexample:
  "upper (dict_get (record_at store_sk 2) ''used'' '''') = ''FALSE''
   \<and> lower (dict_get (record_at store_sk 2) ''language'' '''') = lower ''Slovak''
   \<and> filter_unused_items (store_records store_sk) (Some ''Slovak'') = []
   \<and> fst (get_unused_item store_sk (Some ''Slovak'') 0) = None"
  by code_simp

section \<open>Marking a row\<close>

lemma row_values1_eq:
  "row_values1 ws =
     (if next_request_fails ws then Inl APIError else Inr (header_of (cells ws)),
      snd (remote_call ws (RowValues 1)))"
  using remote_call_fst[of ws "RowValues 1"] remote_call_cells[of ws "RowValues 1"]
  by (auto simp: row_values1_def header_of_def split: prod.splits)

lemma update_cells_eq:
  "update_cells ws cs =
     (if next_request_fails ws \<or> list_ex (\<lambda>c. cell_row c = 0 \<or> cell_col c = 0) cs
      then (Inl APIError, snd (remote_call ws (UpdateCells cs)))
      else (Inr (), (snd (remote_call ws (UpdateCells cs)))
                      \<lparr>cells := foldl set_cell (cells ws) cs\<rparr>))"
  using remote_call_fst[of ws "UpdateCells cs"] remote_call_cells[of ws "UpdateCells cs"]
  by (auto simp: update_cells_def split: prod.splits)

lemma new_calls_remote_call: "new_calls S (snd (remote_call S rq)) = [rq]"
  by (simp add: new_calls_def remote_call_calls)

lemma next_request_fails_after:
  "faults S = [] \<Longrightarrow> \<not> next_request_fails (snd (remote_call S rq))"
  by (simp add: next_request_fails_def remote_call_faults)

lemma mark_item_as_used_missing:
  assumes "''used'' \<notin> set (header_of (cells S)) \<or> ''date_used'' \<notin> set (header_of (cells S))"
  shows "mark_item_as_used S r now =
           (if next_request_fails S then Warning_could_not_mark else Warning_columns_not_found,
            snd (remote_call S (RowValues 1)))"
proof (cases "''used'' \<in> set (header_of (cells S))")
  case False
  then have "list_index (header_of (cells S)) ''used'' = Inl ValueError"
    by (simp only: list_index_notin)
  then show ?thesis by (simp add: mark_item_as_used_def row_values1_eq)
next
  case True
  then have "''date_used'' \<notin> set (header_of (cells S))" using assms by simp
  then have d: "list_index (header_of (cells S)) ''date_used'' = Inl ValueError"
    by (simp only: list_index_notin)
  show ?thesis
  proof (cases "list_index (header_of (cells S)) ''used''")
    case (Inl e)
    then show ?thesis by (simp add: mark_item_as_used_def row_values1_eq)
  next
    case (Inr i)
    then show ?thesis using d by (simp add: mark_item_as_used_def row_values1_eq)
  qed
qed


lemma row_values1_ok:
  "faults S = [] \<Longrightarrow>
     row_values1 S = (Inr (header_of (cells S)), S\<lparr>calls := calls S @ [RowValues 1]\<rparr>)"
  by (simp add: row_values1_def remote_call_ok header_of_def)

lemma update_cells_ok:
  "faults S = [] \<Longrightarrow> \<not> list_ex (\<lambda>c. cell_row c = 0 \<or> cell_col c = 0) cs \<Longrightarrow>
     update_cells S cs =
       (Inr (), S\<lparr>calls := calls S @ [UpdateCells cs], cells := foldl set_cell (cells S) cs\<rparr>)"
  by (simp add: update_cells_def remote_call_ok)

lemma mark_item_as_used_ok:
  assumes "list_index (header_of (cells S)) ''used'' = Inr i"
    and "list_index (header_of (cells S)) ''date_used'' = Inr j"
    and "faults S = []" and "1 \<le> r"
  shows "mark_item_as_used S r now =
           (Info_marked_as_used,
            S\<lparr>calls := calls S @ [RowValues 1,
                                  UpdateCells [Cell r (i + 1) ''TRUE'', Cell r (j + 1) now]],
              cells := foldl set_cell (cells S) [Cell r (i + 1) ''TRUE'', Cell r (j + 1) now]\<rparr>)"
proof -
  let ?S1 = "S\<lparr>calls := calls S @ [RowValues 1]\<rparr>"
  let ?cs = "[Cell r (i + 1) ''TRUE'', Cell r (j + 1) now]"
  have rv: "row_values1 S = (Inr (header_of (cells S)), ?S1)"
    using assms(3) by (rule row_values1_ok)
  have "faults ?S1 = []" using assms(3) by simp
  moreover have "\<not> list_ex (\<lambda>c. cell_row c = 0 \<or> cell_col c = 0) ?cs"
    using assms(4) by simp
  ultimately have uc: "update_cells ?S1 ?cs =
       (Inr (), ?S1\<lparr>calls := calls ?S1 @ [UpdateCells ?cs],
                     cells := foldl set_cell (cells ?S1) ?cs\<rparr>)"
    by (rule update_cells_ok)
  have "mark_item_as_used S r now =
          (Info_marked_as_used,
           ?S1\<lparr>calls := calls ?S1 @ [UpdateCells ?cs],
                 cells := foldl set_cell (cells ?S1) ?cs\<rparr>)"
    by (simp only: mark_item_as_used_def rv assms(1,2) uc Let_def prod.case sum.case)
  then show ?thesis by simp
qed


lemma used_neq_date_used: "''used'' \<noteq> ''date_used''"
  by simp

text \<open>
  C8. When the header lacks \<open>used\<close> or \<open>date_used\<close>, \<open>mark_item_as_used\<close> makes the one
  request that reads the header, writes no cell, and logs a warning; it has no error
  result for its caller. When both columns are present, the requests succeed and the
  row index is from 1 on, it makes one write request with the two cells \<open>used = TRUE\<close>
  and \<open>date_used = now\<close> of the given row, and every other cell of the sheet keeps its
  text.
\<close>

theorem mark_item_as_used_best_effort:
  "(''used'' \<notin> set (header_of (cells S)) \<or> ''date_used'' \<notin> set (header_of (cells S)) \<longrightarrow>
       cells (snd (mark_item_as_used S r now)) = cells S
     \<and> new_calls S (snd (mark_item_as_used S r now)) = [RowValues 1]
     \<and> fst (mark_item_as_used S r now) \<in> {Warning_columns_not_found, Warning_could_not_mark}
     \<and> (\<not> next_request_fails S \<longrightarrow>
           fst (mark_item_as_used S r now) = Warning_columns_not_found))
   \<and> (list_index (header_of (cells S)) ''used'' = Inr i
      \<and> list_index (header_of (cells S)) ''date_used'' = Inr j
      \<and> faults S = [] \<and> 1 \<le> r \<longrightarrow>
       fst (mark_item_as_used S r now) = Info_marked_as_used
     \<and> new_calls S (snd (mark_item_as_used S r now))
         = [RowValues 1, UpdateCells [Cell r (i + 1) ''TRUE'', Cell r (j + 1) now]]
     \<and> (\<forall>r' c'. cell_at (cells (snd (mark_item_as_used S r now))) r' c'
           = (if r' = r \<and> c' = i + 1 then ''TRUE''
              else if r' = r \<and> c' = j + 1 then now
              else cell_at (cells S) r' c')))"
proof (intro conjI impI)
  assume m: "''used'' \<notin> set (header_of (cells S)) \<or> ''date_used'' \<notin> set (header_of (cells S))"
  note eq = mark_item_as_used_missing[OF m, of r now]
  show "cells (snd (mark_item_as_used S r now)) = cells S"
    by (simp add: eq remote_call_cells)
  show "new_calls S (snd (mark_item_as_used S r now)) = [RowValues 1]"
    by (simp add: eq new_calls_remote_call)
  show "fst (mark_item_as_used S r now) \<in> {Warning_columns_not_found, Warning_could_not_mark}"
    by (simp add: eq)
  show "fst (mark_item_as_used S r now) = Warning_columns_not_found" if "\<not> next_request_fails S"
    using that by (simp add: eq)
next
  assume h: "list_index (header_of (cells S)) ''used'' = Inr i
      \<and> list_index (header_of (cells S)) ''date_used'' = Inr j
      \<and> faults S = [] \<and> 1 \<le> r"
  then have eq: "mark_item_as_used S r now =
           (Info_marked_as_used,
            S\<lparr>calls := calls S @ [RowValues 1,
                                  UpdateCells [Cell r (i + 1) ''TRUE'', Cell r (j + 1) now]],
              cells := foldl set_cell (cells S) [Cell r (i + 1) ''TRUE'', Cell r (j + 1) now]\<rparr>)"
    by (intro mark_item_as_used_ok) simp_all
  have ij: "i \<noteq> j"
  proof
    assume "i = j"
    then have "''used'' = ''date_used''"
      using h list_index_Inr[of "header_of (cells S)" "''used''" i]
        list_index_Inr[of "header_of (cells S)" "''date_used''" j] by metis
    then show False by simp
  qed
  show "fst (mark_item_as_used S r now) = Info_marked_as_used"
    by (simp add: eq)
  show "new_calls S (snd (mark_item_as_used S r now))
         = [RowValues 1, UpdateCells [Cell r (i + 1) ''TRUE'', Cell r (j + 1) now]]"
    by (simp add: eq new_calls_def)
  show "\<forall>r' c'. cell_at (cells (snd (mark_item_as_used S r now))) r' c'
           = (if r' = r \<and> c' = i + 1 then ''TRUE''
              else if r' = r \<and> c' = j + 1 then now
              else cell_at (cells S) r' c')"
    using h ij by (auto simp: eq cell_at_set_cell)
qed

theorem mark_item_as_used_best_effort_witness:
  "''date_used'' \<notin> set (header_of (cells store_mixed))
   \<and> cells (snd (mark_item_as_used store_mixed 2 ''2025-03-14 07:00:00'')) = cells store_mixed
   \<and> fst (mark_item_as_used store_mixed 2 ''2025-03-14 07:00:00'') = Warning_columns_not_found
   \<and> list_index (header_of (cells store_full)) ''used'' = Inr 1
   \<and> list_index (header_of (cells store_full)) ''date_used'' = Inr 2
   \<and> faults store_full = []
   \<and> fst (mark_item_as_used store_full 2 ''2025-03-14 07:00:00'') = Info_marked_as_used
   \<and> new_calls store_full (snd (mark_item_as_used store_full 2 ''2025-03-14 07:00:00''))
        = [RowValues 1,
           UpdateCells [Cell 2 2 ''TRUE'', Cell 2 3 ''2025-03-14 07:00:00'']]
   \<and> cell_at (cells (snd (mark_item_as_used store_full 2 ''2025-03-14 07:00:00''))) 2 2 = ''TRUE''"
proof -
  have h1: "''date_used'' \<notin> set (header_of (cells store_mixed))" by code_simp
  have h2: "\<not> next_request_fails store_mixed" by code_simp
  have h3: "list_index (header_of (cells store_full)) ''used'' = Inr 1" by code_simp
  have h4: "list_index (header_of (cells store_full)) ''date_used'' = Inr 2" by code_simp
  have h5: "faults store_full = []" by code_simp
  show ?thesis
    using mark_item_as_used_best_effort[of store_mixed 2 "''2025-03-14 07:00:00''" 0 0]
      mark_item_as_used_best_effort[of store_full 2 "''2025-03-14 07:00:00''" 1 2]
      h1 h2 h3 h4 h5
    by simp
qed

section \<open>The reset\<close>

lemma get_all_values_ok:
  "faults S = [] \<Longrightarrow>
     get_all_values S = (Inr (cells S), S\<lparr>calls := calls S @ [GetAllValues]\<rparr>)"
  by (simp add: get_all_values_def remote_call_ok)

lemma lang_match_shift:
  "j < length (cells S) - 1 \<Longrightarrow>
     lang_match language (record_at S (Suc (Suc j))) \<longleftrightarrow> lang_match language (store_records S ! j)"
  by (simp add: nth_store_records)

lemma reset_loop_store:
  "reset_loop 0 (store_records S) language c = reset_cells S language c"
proof -
  let ?n = "length (cells S) - 1"
  let ?rs = "store_records S"
  have upt: "[2..<Suc (length (cells S))] = map (\<lambda>j. j + 2) [0..<?n]"
  proof (cases "cells S")
    case Nil then show ?thesis by simp
  next
    case (Cons a list)
    show ?thesis using map_add_upt[of 2 "length list"] Cons
      by (simp add: numeral_2_eq_2 del: upt_Suc)
  qed
  have "reset_loop 0 ?rs language c =
          map (\<lambda>j. Cell (j + 2) c ''FALSE'')
            (filter (\<lambda>j. lang_match language (?rs ! j)) [0..<?n])"
    by (simp add: reset_loop_eq length_store_records)
  also have "filter (\<lambda>j. lang_match language (?rs ! j)) [0..<?n]
               = filter (\<lambda>j. lang_match language (record_at S (j + 2))) [0..<?n]"
    by (rule filter_cong) (simp_all add: lang_match_shift)
  also have "map (\<lambda>j. Cell (j + 2) c ''FALSE'')
               (filter (\<lambda>j. lang_match language (record_at S (j + 2))) [0..<?n])
             = reset_cells S language c"
    unfolding reset_cells_def matching_rows_def upt by (simp add: filter_map comp_def)
  finally show ?thesis .
qed

lemma matching_rows_iff:
  "idx \<in> set (matching_rows S language) \<longleftrightarrow>
     2 \<le> idx \<and> idx \<le> length (cells S) \<and> lang_match language (record_at S idx)"
  by (auto simp: matching_rows_def)

lemma reset_cells_rows:
  "x \<in> set (reset_cells S language c) \<Longrightarrow>
     2 \<le> cell_row x \<and> cell_row x \<le> length (cells S) \<and> cell_col x = c
     \<and> cell_value x = ''FALSE''"
  by (auto simp: reset_cells_def matching_rows_iff)

lemma reset_cells_empty: "reset_cells S language c = [] \<longleftrightarrow> matching_rows S language = []"
  by (simp add: reset_cells_def)

lemma matching_rows_short: "length (cells S) < 2 \<Longrightarrow> matching_rows S language = []"
  by (simp add: matching_rows_def)

lemma reset_used_flags_ok:
  assumes "faults S = []" and "list_index (header_of (cells S)) ''used'' = Inr i"
  shows "reset_used_flags S language =
           (if matching_rows S language = []
            then (False, S\<lparr>calls := calls S @ [GetAllValues]\<rparr>)
            else (True, S\<lparr>calls := calls S @ [GetAllValues,
                                                UpdateCells (reset_cells S language (i + 1))],
                          cells := foldl set_cell (cells S) (reset_cells S language (i + 1))\<rparr>))"
proof -
  let ?S1 = "S\<lparr>calls := calls S @ [GetAllValues]\<rparr>"
  let ?ups = "reset_cells S language (i + 1)"
  have gv: "get_all_values S = (Inr (cells S), ?S1)"
    using assms(1) by (rule get_all_values_ok)
  show ?thesis
  proof (cases "length (cells S) < 2")
    case True
    then show ?thesis
      by (simp add: reset_used_flags_def gv matching_rows_short)
  next
    case False
    then have ne: "cells S \<noteq> []" by auto
    have hd: "hd (cells S) = header_of (cells S)" using ne by (rule hd_header_of)
    have rl: "reset_loop 0 (records_of (header_of (cells S)) (cells S)) language (i + 1) = ?ups"
      using reset_loop_store[of S language "i + 1"] by (simp add: store_records_def)
    show ?thesis
    proof (cases "matching_rows S language = []")
      case True
      then have "?ups = []" by (simp add: reset_cells_empty)
      then show ?thesis using False True
        by (simp only: reset_used_flags_def gv prod.case sum.case hd assms(2) Let_def rl)
           simp
    next
      case nonempty: False
      then have upne: "?ups \<noteq> []" by (simp add: reset_cells_empty)
      have "faults ?S1 = []" using assms(1) by simp
      moreover have "\<not> list_ex (\<lambda>c. cell_row c = 0 \<or> cell_col c = 0) ?ups"
        by (auto simp: list_ex_iff dest!: reset_cells_rows)
      ultimately have uc: "update_cells ?S1 ?ups =
         (Inr (), ?S1\<lparr>calls := calls ?S1 @ [UpdateCells ?ups],
                       cells := foldl set_cell (cells ?S1) ?ups\<rparr>)"
        by (rule update_cells_ok)
      have "reset_used_flags S language =
              (True, ?S1\<lparr>calls := calls ?S1 @ [UpdateCells ?ups],
                            cells := foldl set_cell (cells ?S1) ?ups\<rparr>)"
        using False upne
        by (simp only: reset_used_flags_def gv prod.case sum.case hd assms(2) Let_def rl uc
              if_False if_True not_False_eq_True)
      then show ?thesis using nonempty by simp
    qed
  qed
qed

lemma reset_used_flags_no_column:
  assumes "faults S = []" and "''used'' \<notin> set (header_of (cells S))"
  shows "reset_used_flags S language = (False, S\<lparr>calls := calls S @ [GetAllValues]\<rparr>)"
proof -
  have li: "list_index (header_of (cells S)) ''used'' = Inl ValueError"
    using assms(2) by (simp only: list_index_notin)
  have gv: "get_all_values S = (Inr (cells S), S\<lparr>calls := calls S @ [GetAllValues]\<rparr>)"
    using assms(1) by (rule get_all_values_ok)
  show ?thesis
  proof (cases "length (cells S) < 2")
    case True
    then show ?thesis by (simp add: reset_used_flags_def gv)
  next
    case False
    then have "hd (cells S) = header_of (cells S)" by (intro hd_header_of) auto
    then show ?thesis using False
      by (simp add: reset_used_flags_def gv li)
  qed
qed

lemma no_candidate_iff:
  "filter_unused_items (store_records S) language = [] \<longleftrightarrow> (\<forall>idx. \<not> candidate S language idx)"
proof
  assume e: "filter_unused_items (store_records S) language = []"
  show "\<forall>idx. \<not> candidate S language idx"
  proof (intro allI notI)
    fix idx assume "candidate S language idx"
    then have "(idx, record_at S idx) \<in> set (filter_unused_items (store_records S) language)"
      by (simp add: candidate_in_filter)
    then show False using e by simp
  qed
next
  assume a: "\<forall>idx. \<not> candidate S language idx"
  show "filter_unused_items (store_records S) language = []"
    using a by (simp add: filter_unused_items_store filter_empty_conv)
qed

lemma length_reset_grid:
  "length (foldl set_cell (cells S) (reset_cells S language c)) = length (cells S)"
  by (rule length_foldl_set_cell) (auto dest!: reset_cells_rows)

lemma header_reset_grid:
  "header_of (foldl set_cell (cells S) (reset_cells S language c)) = header_of (cells S)"
proof (cases "cells S = []")
  case True
  then have "reset_cells S language c = []"
    by (simp add: reset_cells_empty matching_rows_short)
  then show ?thesis by simp
next
  case False
  then show ?thesis
    by (intro header_of_foldl_set_cell) (auto dest!: reset_cells_rows)
qed

lemma cell_at_reset_grid:
  assumes "1 \<le> c"
  shows "cell_at (foldl set_cell (cells S) (reset_cells S language c)) r c' =
           (if r \<in> set (matching_rows S language) \<and> c' = c then ''FALSE''
            else cell_at (cells S) r c')"
proof (cases "r \<in> set (matching_rows S language) \<and> c' = c")
  case True
  have "cell_at (foldl set_cell (cells S) (reset_cells S language c)) r c = ''FALSE''"
  proof (rule cell_at_foldl_const)
    show "\<forall>x\<in>set (reset_cells S language c). 1 \<le> cell_row x \<and> 1 \<le> cell_col x"
      using assms by (auto dest!: reset_cells_rows)
    show "\<forall>x\<in>set (reset_cells S language c).
            cell_row x = r \<and> cell_col x = c \<longrightarrow> cell_value x = ''FALSE''"
      by (auto dest!: reset_cells_rows)
    show "\<exists>x\<in>set (reset_cells S language c). cell_row x = r \<and> cell_col x = c"
      using True by (auto simp: reset_cells_def)
  qed
  then show ?thesis using True by simp
next
  case False
  have "cell_at (foldl set_cell (cells S) (reset_cells S language c)) r c' = cell_at (cells S) r c'"
  proof (rule cell_at_foldl_other)
    show "\<forall>x\<in>set (reset_cells S language c). 1 \<le> cell_row x \<and> 1 \<le> cell_col x"
      using assms by (auto dest!: reset_cells_rows)
    show "\<forall>x\<in>set (reset_cells S language c). \<not> (cell_row x = r \<and> cell_col x = c')"
      using False by (auto simp: reset_cells_def)
  qed
  then show ?thesis using False by auto
qed

lemma matching_rows_calls: "matching_rows (S\<lparr>calls := cl\<rparr>) language = matching_rows S language"
  by (simp add: matching_rows_def record_at_def)

lemma reset_cells_calls: "reset_cells (S\<lparr>calls := cl\<rparr>) language c = reset_cells S language c"
  by (simp add: reset_cells_def matching_rows_calls)

lemma get_unused_item_exhausted:
  assumes "faults S = []" and "list_index (header_of (cells S)) ''used'' = Inr i"
    and "filter_unused_items (store_records S) language = []"
    and "matching_rows S language \<noteq> []"
  shows "get_unused_item S language rnd =
           (choose_item
              (filter_unused_items
                 (store_records
                    (S\<lparr>cells := foldl set_cell (cells S) (reset_cells S language (i + 1))\<rparr>))
                 language) rnd,
            S\<lparr>calls := calls S @ [GetAllValues, GetAllValues,
                                  UpdateCells (reset_cells S language (i + 1)), GetAllValues],
              cells := foldl set_cell (cells S) (reset_cells S language (i + 1))\<rparr>)"
proof -
  let ?S1 = "S\<lparr>calls := calls S @ [GetAllValues]\<rparr>"
  let ?ups = "reset_cells S language (i + 1)"
  let ?g = "foldl set_cell (cells S) ?ups"
  let ?S2 = "?S1\<lparr>calls := calls ?S1 @ [GetAllValues, UpdateCells ?ups], cells := ?g\<rparr>"
  let ?S3 = "?S2\<lparr>calls := calls ?S2 @ [GetAllValues]\<rparr>"
  have len: "2 \<le> length (cells S)"
    using assms(4) matching_rows_short[of S language] by (cases "length (cells S) < 2") auto
  then have ne: "cells S \<noteq> []" by auto
  have hd: "hd (cells S) = header_of (cells S)" using ne by (rule hd_header_of)
  have gv: "get_all_values S = (Inr (cells S), ?S1)"
    using assms(1) by (rule get_all_values_ok)
  have f1: "faults ?S1 = []" "list_index (header_of (cells ?S1)) ''used'' = Inr i"
    using assms(1,2) by simp_all
  have rs: "reset_used_flags ?S1 language = (True, ?S2)"
    using reset_used_flags_ok[OF f1, of language] assms(4)
    by (simp add: matching_rows_calls reset_cells_calls)
  have gv2: "get_all_values ?S2 = (Inr ?g, ?S3)"
    using get_all_values_ok[of ?S2] assms(1) by simp
  have rec: "records_of (header_of (cells S)) ?g = store_records (S\<lparr>cells := ?g\<rparr>)"
    by (simp add: store_records_def header_reset_grid)
  have fil: "filter_unused_items (records_of (header_of (cells S)) (cells S)) language = []"
    using assms(3) by (simp add: store_records_def)
  have "get_unused_item S language rnd =
          (choose_item (filter_unused_items (store_records (S\<lparr>cells := ?g\<rparr>)) language) rnd, ?S3)"
    using len
    by (simp only: get_unused_item_def gv prod.case sum.case hd Let_def fil rs gv2 rec
          bool.case if_True if_False not_less[symmetric] simp_thms)
  then show ?thesis by simp
qed

lemma get_unused_item_nothing_to_reset:
  assumes "faults S = []"
    and "filter_unused_items (store_records S) language = []"
    and "matching_rows S language = [] \<or> ''used'' \<notin> set (header_of (cells S))"
  shows "fst (get_unused_item S language rnd) = None
       \<and> cells (snd (get_unused_item S language rnd)) = cells S
       \<and> (new_calls S (snd (get_unused_item S language rnd)) = [GetAllValues]
          \<or> new_calls S (snd (get_unused_item S language rnd)) = [GetAllValues, GetAllValues])"
proof -
  let ?S1 = "S\<lparr>calls := calls S @ [GetAllValues]\<rparr>"
  have gv: "get_all_values S = (Inr (cells S), ?S1)"
    using assms(1) by (rule get_all_values_ok)
  show ?thesis
  proof (cases "length (cells S) < 2")
    case True
    then show ?thesis by (simp add: get_unused_item_def gv new_calls_def)
  next
    case False
    then have ne: "cells S \<noteq> []" by auto
    have hd: "hd (cells S) = header_of (cells S)" using ne by (rule hd_header_of)
    have fil: "filter_unused_items (records_of (header_of (cells S)) (cells S)) language = []"
      using assms(2) by (simp add: store_records_def)
    have f1: "faults ?S1 = []" using assms(1) by simp
    have rs: "reset_used_flags ?S1 language = (False, ?S1\<lparr>calls := calls ?S1 @ [GetAllValues]\<rparr>)"
    proof (cases "''used'' \<in> set (header_of (cells S))")
      case True
      then obtain i where i: "list_index (header_of (cells ?S1)) ''used'' = Inr i"
        using list_index_Inl[of "header_of (cells S)" "''used''"]
        by (cases "list_index (header_of (cells S)) ''used''") auto
      have "matching_rows S language = []" using assms(3) True by simp
      then show ?thesis using reset_used_flags_ok[OF f1 i, of language]
        by (simp add: matching_rows_calls)
    next
      case False
      then show ?thesis using reset_used_flags_no_column[OF f1, of language] by simp
    qed
    have "get_unused_item S language rnd = (None, ?S1\<lparr>calls := calls ?S1 @ [GetAllValues]\<rparr>)"
      using False
      by (simp only: get_unused_item_def gv prod.case sum.case hd Let_def fil rs
            bool.case if_True if_False simp_thms)
    then show ?thesis by (simp add: new_calls_def)
  qed
qed

text \<open>
  C2. For a store with a \<open>used\<close> column whose requests succeed and which has no candidate
  row: when no data row matches the language filter, \<open>get_unused_item\<close> returns nothing
  and makes no write request; otherwise its requests are the read, the read of the reset,
  one \<open>update_cells\<close> request that holds \<open>FALSE\<close> for the \<open>used\<close> cell of every matching
  row, and one more read. Every other cell keeps its text. The result is nothing when the
  store still has no candidate, and a candidate row of the reset store otherwise.
\<close>

theorem get_unused_item_resets_once:
  assumes "faults S = []"
    and "list_index (header_of (cells S)) ''used'' = Inr i"
    and "\<forall>idx. \<not> candidate S language idx"
  shows "(matching_rows S language = [] \<longrightarrow>
            fst (get_unused_item S language rnd) = None
          \<and> cells (snd (get_unused_item S language rnd)) = cells S
          \<and> (\<forall>cs. UpdateCells cs \<notin> set (new_calls S (snd (get_unused_item S language rnd)))))
       \<and> (matching_rows S language \<noteq> [] \<longrightarrow>
            new_calls S (snd (get_unused_item S language rnd))
              = [GetAllValues, GetAllValues,
                 UpdateCells (reset_cells S language (i + 1)), GetAllValues]
          \<and> length (cells (snd (get_unused_item S language rnd))) = length (cells S)
          \<and> (\<forall>r c. cell_at (cells (snd (get_unused_item S language rnd))) r c
                 = (if r \<in> set (matching_rows S language) \<and> c = i + 1 then ''FALSE''
                    else cell_at (cells S) r c))
          \<and> ((\<forall>idx. \<not> candidate (snd (get_unused_item S language rnd)) language idx) \<longrightarrow>
                fst (get_unused_item S language rnd) = None)
          \<and> ((\<exists>idx. candidate (snd (get_unused_item S language rnd)) language idx) \<longrightarrow>
                (\<exists>idx. fst (get_unused_item S language rnd)
                          = Some (idx, record_at (snd (get_unused_item S language rnd)) idx)
                     \<and> candidate (snd (get_unused_item S language rnd)) language idx)))"
proof (intro conjI impI)
  have fil: "filter_unused_items (store_records S) language = []"
    using assms(3) by (simp add: no_candidate_iff)
  {
    assume m: "matching_rows S language = []"
    note n = get_unused_item_nothing_to_reset[OF assms(1) fil, of rnd] 
    show "fst (get_unused_item S language rnd) = None" using n m by blast
    show "cells (snd (get_unused_item S language rnd)) = cells S" using n m by blast
    show "\<forall>cs. UpdateCells cs \<notin> set (new_calls S (snd (get_unused_item S language rnd)))"
      using n m by auto
  }
  {
    assume m: "matching_rows S language \<noteq> []"
    let ?g = "foldl set_cell (cells S) (reset_cells S language (i + 1))"
    let ?S' = "S\<lparr>calls := calls S @ [GetAllValues, GetAllValues,
                                  UpdateCells (reset_cells S language (i + 1)), GetAllValues],
              cells := ?g\<rparr>"
    let ?cs = "filter_unused_items (store_records (S\<lparr>cells := ?g\<rparr>)) language"
    have eq: "get_unused_item S language rnd = (choose_item ?cs rnd, ?S')"
      by (rule get_unused_item_exhausted[OF assms(1,2) fil m])
    have sr: "store_records ?S' = store_records (S\<lparr>cells := ?g\<rparr>)"
      by (simp add: store_records_def)
    have ch: "fst (get_unused_item S language rnd)
                = choose_item (filter_unused_items (store_records ?S') language) rnd"
      by (simp only: eq fst_conv sr)
    have sn: "snd (get_unused_item S language rnd) = ?S'"
      by (simp only: eq snd_conv)
    show "new_calls S (snd (get_unused_item S language rnd))
              = [GetAllValues, GetAllValues,
                 UpdateCells (reset_cells S language (i + 1)), GetAllValues]"
      by (simp add: eq new_calls_def)
    show "length (cells (snd (get_unused_item S language rnd))) = length (cells S)"
      by (simp add: eq length_reset_grid)
    show "\<forall>r c. cell_at (cells (snd (get_unused_item S language rnd))) r c
                 = (if r \<in> set (matching_rows S language) \<and> c = i + 1 then ''FALSE''
                    else cell_at (cells S) r c)"
      by (simp add: eq cell_at_reset_grid)
    show "fst (get_unused_item S language rnd) = None"
      if "\<forall>idx. \<not> candidate (snd (get_unused_item S language rnd)) language idx"
    proof -
      have "\<forall>idx. \<not> candidate ?S' language idx"
        using that unfolding sn .
      then have "filter_unused_items (store_records ?S') language = []"
        by (rule no_candidate_iff[THEN iffD2])
      then show ?thesis by (simp only: ch choose_item_empty)
    qed
    show "\<exists>idx. fst (get_unused_item S language rnd)
                          = Some (idx, record_at (snd (get_unused_item S language rnd)) idx)
                     \<and> candidate (snd (get_unused_item S language rnd)) language idx"
      if "\<exists>idx. candidate (snd (get_unused_item S language rnd)) language idx"
    proof -
      let ?fs = "filter_unused_items (store_records ?S') language"
      have "\<exists>idx. candidate ?S' language idx"
        using that unfolding sn .
      then have ne: "?fs \<noteq> []"
        using no_candidate_iff[of ?S' language] by blast
      obtain idx rec where pr: "?fs ! (rnd mod length ?fs) = (idx, rec)"
        by (cases "?fs ! (rnd mod length ?fs)")
      have "?fs ! (rnd mod length ?fs) \<in> set ?fs" using ne by simp
      then have "(idx, rec) \<in> set ?fs"
        using pr by (simp only:)
      then have c: "candidate ?S' language idx \<and> rec = record_at ?S' idx"
        by (simp only: candidate_in_filter)
      have "choose_item ?fs rnd = Some (idx, rec)"
        using choose_item_nonempty[OF ne, of rnd] pr by simp
      then have "fst (get_unused_item S language rnd) = Some (idx, rec)"
        unfolding ch .
      then show ?thesis
        using c unfolding sn by blast
    qed
  }
qed


theorem get_unused_item_resets_once_witness:
  "faults store_spent = []
   \<and> list_index (header_of (cells store_spent)) ''used'' = Inr 2
   \<and> (\<forall>idx. \<not> candidate store_spent (Some ''english'') idx)
   \<and> matching_rows store_spent (Some ''english'') = [2, 4]
   \<and> new_calls store_spent (snd (get_unused_item store_spent (Some ''english'') 1))
        = [GetAllValues, GetAllValues,
           UpdateCells [Cell 2 3 ''FALSE'', Cell 4 3 ''FALSE''], GetAllValues]
   \<and> cell_at (cells (snd (get_unused_item store_spent (Some ''english'') 1))) 4 3 = ''FALSE''
   \<and> cell_at (cells (snd (get_unused_item store_spent (Some ''english'') 1))) 3 3 = ''''
   \<and> matching_rows store_spent (Some ''german'') = []
   \<and> fst (get_unused_item store_spent (Some ''german'') 1) = None
   \<and> cells (snd (get_unused_item store_spent (Some ''german'') 1)) = cells store_spent"
proof -
  have h1: "faults store_spent = []" by code_simp
  have h2: "list_index (header_of (cells store_spent)) ''used'' = Inr 2" by code_simp
  have "filter_unused_items (store_records store_spent) (Some ''english'') = []" by code_simp
  then have h3: "\<forall>idx. \<not> candidate store_spent (Some ''english'') idx"
    by (rule no_candidate_iff[THEN iffD1])
  have "filter_unused_items (store_records store_spent) (Some ''german'') = []" by code_simp
  then have h4: "\<forall>idx. \<not> candidate store_spent (Some ''german'') idx"
    by (rule no_candidate_iff[THEN iffD1])
  have m1: "matching_rows store_spent (Some ''english'') = [2, 4]" by code_simp
  have m2: "matching_rows store_spent (Some ''german'') = []" by code_simp
  have r1: "reset_cells store_spent (Some ''english'') (2 + 1)
              = [Cell 2 3 ''FALSE'', Cell 4 3 ''FALSE'']" by code_simp
  have c1: "cell_at (cells store_spent) 3 3 = ''''" by code_simp
  show ?thesis
    using get_unused_item_resets_once[OF h1 h2 h3, of 1]
      get_unused_item_resets_once[OF h1 h2 h4, of 1] h1 h2 h3 m1 m2 r1 c1
    by simp
qed

lemma dict_get_record_at:
  assumes "count_list (header_of (cells S)) k = 1"
    and "list_index (header_of (cells S)) k = Inr i"
    and "1 \<le> idx" and "idx \<le> length (cells S)"
  shows "dict_get (record_at S idx) k '''' = cell_at (cells S) idx (i + 1)"
  using assms(3,4)
  by (simp add: record_at_def dict_get_zip_once[OF assms(1,2)] cell_at_def)

lemma dict_get_record_at_absent:
  "k \<notin> set (header_of (cells S)) \<Longrightarrow> dict_get (record_at S idx) k '''' = ''''"
  by (simp add: record_at_def dict_get_zip_notin)

lemma upper_FALSE: "upper ''FALSE'' = ''FALSE''"
  by code_simp

lemma upper_empty: "upper '''' \<noteq> ''FALSE''"
  by (simp add: upper_def)

lemma not_unused_without_column:
  "''used'' \<notin> set (header_of (cells S)) \<Longrightarrow> \<not> is_unused (record_at S idx)"
  by (simp add: is_unused_def dict_get_record_at_absent upper_empty)

text \<open>The store after a reset that found rows to write.\<close>

lemma candidate_after_reset:
  assumes used1: "count_list (header_of (cells S)) ''used'' = 1"
    and i: "list_index (header_of (cells S)) ''used'' = Inr i"
    and lang1: "language \<noteq> None \<longrightarrow> count_list (header_of (cells S)) ''language'' \<le> 1"
    and idx: "2 \<le> idx" "idx \<le> length (cells S)"
    and m: "lang_match language (record_at S idx)"
    and S': "cells S' = foldl set_cell (cells S) (reset_cells S language (i + 1))"
  shows "cell_at (cells S') idx (i + 1) = ''FALSE'' \<and> candidate S' language idx"
proof -
  have hdr: "header_of (cells S') = header_of (cells S)"
    by (simp add: S' header_reset_grid)
  have len: "length (cells S') = length (cells S)"
    by (simp add: S' length_reset_grid)
  have mem: "idx \<in> set (matching_rows S language)"
    using idx m by (simp add: matching_rows_iff)
  have cell: "cell_at (cells S') idx (i + 1) = ''FALSE''"
    using mem by (simp add: S' cell_at_reset_grid)
  have "dict_get (record_at S' idx) ''used'' '''' = cell_at (cells S') idx (i + 1)"
    by (rule dict_get_record_at) (use used1 i idx hdr len in simp_all)
  then have "dict_get (record_at S' idx) ''used'' '''' = ''FALSE''"
    by (simp only: cell)
  then have un: "is_unused (record_at S' idx)"
    by (simp only: is_unused_def upper_FALSE)
  have lm: "lang_match language (record_at S' idx)"
  proof (cases language)
    case None
    then show ?thesis by (simp add: lang_match_def)
  next
    case (Some l)
    have same: "dict_get (record_at S' idx) ''language'' '''' = dict_get (record_at S idx) ''language'' ''''"
    proof (cases "''language'' \<in> set (header_of (cells S))")
      case False
      then show ?thesis using hdr by (simp add: dict_get_record_at_absent)
    next
      case True
      then have c1: "count_list (header_of (cells S)) ''language'' = 1"
        using lang1 Some count_list_0_iff[of "header_of (cells S)" "''language''"]
        by (cases "count_list (header_of (cells S)) ''language''") auto
      obtain j where j: "list_index (header_of (cells S)) ''language'' = Inr j"
        using True list_index_Inl[of "header_of (cells S)" "''language''"]
        by (cases "list_index (header_of (cells S)) ''language''") auto
      have "j \<noteq> i"
      proof
        assume "j = i"
        then have "''language'' = ''used''"
          using list_index_Inr[OF j] list_index_Inr[OF i] by simp
        then show False by simp
      qed
      then have "cell_at (cells S') idx (j + 1) = cell_at (cells S) idx (j + 1)"
        by (simp add: S' cell_at_reset_grid)
      moreover have "dict_get (record_at S' idx) ''language'' '''' = cell_at (cells S') idx (j + 1)"
        by (rule dict_get_record_at) (use c1 j idx hdr len in simp_all)
      moreover have "dict_get (record_at S idx) ''language'' '''' = cell_at (cells S) idx (j + 1)"
        by (rule dict_get_record_at) (use c1 j idx in simp_all)
      ultimately show ?thesis by simp
    qed
    then show ?thesis using m Some by (simp add: lang_match_def)
  qed
  show ?thesis using cell un lm idx len by (simp add: candidate_def)
qed


lemma no_candidate_without_column:
  "''used'' \<notin> set (header_of (cells S)) \<Longrightarrow>
     filter_unused_items (store_records S) language = []"
  by (rule no_candidate_iff[THEN iffD2]) (simp add: candidate_def not_unused_without_column)

text \<open>
  C10, as the code has it. A row whose \<open>used\<close> text is not \<open>FALSE\<close> in some letter case
  (the empty text of a missing cell or column included) is no candidate, and a row that
  is returned always has such a text. When the header has no \<open>used\<close> column, the reset
  fails without writing and nothing is returned. When the header names \<open>used\<close> once (and
  \<open>language\<close> at most once, if a filter is given) and the requests succeed, the reset
  writes \<open>FALSE\<close> into the \<open>used\<close> cell of every data row that matches the filter, and
  the row is a candidate afterwards, also after the reset made by \<open>get_unused_item\<close>.
\<close>

theorem used_unless_FALSE_until_reset:
  "(upper (dict_get row ''used'' '''') \<noteq> ''FALSE'' \<longrightarrow>
        (n, row) \<notin> set (filter_unused_items records language))
   \<and> (fst (get_unused_item S language rnd) = Some (n, row) \<longrightarrow>
        upper (dict_get row ''used'' '''') = ''FALSE'')
   \<and> (''used'' \<notin> set (header_of (cells S)) \<and> faults S = [] \<longrightarrow>
          \<not> is_unused (record_at S idx)
        \<and> fst (reset_used_flags S language) = False
        \<and> cells (snd (reset_used_flags S language)) = cells S
        \<and> fst (get_unused_item S language rnd) = None
        \<and> cells (snd (get_unused_item S language rnd)) = cells S)
   \<and> (faults S = [] \<and> count_list (header_of (cells S)) ''used'' = 1
        \<and> list_index (header_of (cells S)) ''used'' = Inr i
        \<and> (language \<noteq> None \<longrightarrow> count_list (header_of (cells S)) ''language'' \<le> 1)
        \<and> 2 \<le> idx \<and> idx \<le> length (cells S) \<and> lang_match language (record_at S idx) \<longrightarrow>
          fst (reset_used_flags S language) = True
        \<and> cell_at (cells (snd (reset_used_flags S language))) idx (i + 1) = ''FALSE''
        \<and> candidate (snd (reset_used_flags S language)) language idx
        \<and> ((\<forall>j. \<not> candidate S language j) \<longrightarrow>
              candidate (snd (get_unused_item S language rnd)) language idx))"
proof (intro conjI impI)
  show "(n, row) \<notin> set (filter_unused_items records language)"
    if "upper (dict_get row ''used'' '''') \<noteq> ''FALSE''"
    using that by (simp add: filter_unused_items_iff is_unused_def)
  show "upper (dict_get row ''used'' '''') = ''FALSE''"
    if "fst (get_unused_item S language rnd) = Some (n, row)"
    using get_unused_item_sound[OF that] by (simp add: is_unused_def)
next
  assume a: "''used'' \<notin> set (header_of (cells S)) \<and> faults S = []"
  then have nu: "''used'' \<notin> set (header_of (cells S))" and f: "faults S = []" by simp_all
  show "\<not> is_unused (record_at S idx)" using nu by (rule not_unused_without_column)
  have rs: "reset_used_flags S language = (False, S\<lparr>calls := calls S @ [GetAllValues]\<rparr>)"
    using f nu by (rule reset_used_flags_no_column)
  show "fst (reset_used_flags S language) = False" by (simp add: rs)
  show "cells (snd (reset_used_flags S language)) = cells S" by (simp add: rs)
  have fil: "filter_unused_items (store_records S) language = []"
    using nu by (rule no_candidate_without_column)
  note n = get_unused_item_nothing_to_reset[OF f fil, of rnd]
  show "fst (get_unused_item S language rnd) = None" using n nu by blast
  show "cells (snd (get_unused_item S language rnd)) = cells S" using n nu by blast
next
  assume a: "faults S = [] \<and> count_list (header_of (cells S)) ''used'' = 1
        \<and> list_index (header_of (cells S)) ''used'' = Inr i
        \<and> (language \<noteq> None \<longrightarrow> count_list (header_of (cells S)) ''language'' \<le> 1)
        \<and> 2 \<le> idx \<and> idx \<le> length (cells S) \<and> lang_match language (record_at S idx)"
  then have f: "faults S = []" and u1: "count_list (header_of (cells S)) ''used'' = 1"
    and i: "list_index (header_of (cells S)) ''used'' = Inr i"
    and l1: "language \<noteq> None \<longrightarrow> count_list (header_of (cells S)) ''language'' \<le> 1"
    and idx: "2 \<le> idx" "idx \<le> length (cells S)"
    and m: "lang_match language (record_at S idx)"
    by simp_all
  let ?g = "foldl set_cell (cells S) (reset_cells S language (i + 1))"
  have ne: "matching_rows S language \<noteq> []"
    using idx m matching_rows_iff[of idx S language] by auto
  have rs: "reset_used_flags S language =
              (True, S\<lparr>calls := calls S @ [GetAllValues,
                                            UpdateCells (reset_cells S language (i + 1))],
                        cells := ?g\<rparr>)"
    using reset_used_flags_ok[OF f i, of language] ne by simp
  have c1: "cells (snd (reset_used_flags S language)) = ?g" by (simp add: rs)
  show "fst (reset_used_flags S language) = True" by (simp add: rs)
  show "cell_at (cells (snd (reset_used_flags S language))) idx (i + 1) = ''FALSE''"
    using candidate_after_reset[OF u1 i l1 idx m c1] by blast
  show "candidate (snd (reset_used_flags S language)) language idx"
    using candidate_after_reset[OF u1 i l1 idx m c1] by blast
  show "candidate (snd (get_unused_item S language rnd)) language idx"
    if "\<forall>j. \<not> candidate S language j"
  proof -
    have fil: "filter_unused_items (store_records S) language = []"
      using that by (rule no_candidate_iff[THEN iffD2])
    have "cells (snd (get_unused_item S language rnd)) = ?g"
      by (simp add: get_unused_item_exhausted[OF f i fil ne])
    from candidate_after_reset[OF u1 i l1 idx m this] show ?thesis by blast
  qed
qed

theorem used_unless_FALSE_until_reset_witness:
  "upper (dict_get (record_at store_spent 4) ''used'' '''') \<noteq> ''FALSE''
   \<and> (4, record_at store_spent 4)
        \<notin> set (filter_unused_items (store_records store_spent) (Some ''english''))
   \<and> faults store_spent = []
   \<and> list_index (header_of (cells store_spent)) ''used'' = Inr 2
   \<and> lang_match (Some ''english'') (record_at store_spent 4)
   \<and> fst (reset_used_flags store_spent (Some ''english'')) = True
   \<and> cell_at (cells (snd (reset_used_flags store_spent (Some ''english'')))) 4 3 = ''FALSE''
   \<and> candidate (snd (reset_used_flags store_spent (Some ''english''))) (Some ''english'') 4
   \<and> ''used'' \<notin> set (header_of (cells store_no_used))
   \<and> fst (reset_used_flags store_no_used None) = False"
proof -
  have h0: "upper (dict_get (record_at store_spent 4) ''used'' '''') \<noteq> ''FALSE''" by code_simp
  have h1: "faults store_spent = []" by code_simp
  have h2: "count_list (header_of (cells store_spent)) ''used'' = 1" by code_simp
  have h3: "list_index (header_of (cells store_spent)) ''used'' = Inr 2" by code_simp
  have h4: "count_list (header_of (cells store_spent)) ''language'' \<le> 1" by code_simp
  have h5: "(2::nat) \<le> 4 \<and> 4 \<le> length (cells store_spent)" by code_simp
  have h6: "lang_match (Some ''english'') (record_at store_spent 4)" by code_simp
  have h7: "''used'' \<notin> set (header_of (cells store_no_used))" by code_simp
  have h8: "faults store_no_used = []" by code_simp
  show ?thesis
    using used_unless_FALSE_until_reset
            [of "record_at store_spent 4" 4 "store_records store_spent" "Some ''english''"
                store_spent 0 4 2]
      used_unless_FALSE_until_reset
            [of "record_at store_no_used 2" 2 "store_records store_no_used" None
                store_no_used 0 2 0]
      h0 h1 h2 h3 h4 h5 h6 h7 h8
    by simp
qed

text \<open>
  C10, as it is stated, fails for a missing \<open>used\<close> column: row 2 of this store is
  treated as used and matches the (absent) filter; the reset returns \<open>False\<close> and writes
  nothing, the row is no candidate afterwards, and \<open>get_unused_item\<close> returns nothing.
\<close>

theorem reset_without_used_column_counterexample:
  "''used'' \<notin> set (header_of (cells store_no_used))
   \<and> \<not> is_unused (record_at store_no_used 2)
   \<and> lang_match None (record_at store_no_used 2)
   \<and> fst (reset_used_flags store_no_used None) = False
   \<and> cells (snd (reset_used_flags store_no_used None)) = cells store_no_used
   \<and> \<not> candidate (snd (reset_used_flags store_no_used None)) None 2
   \<and> fst (get_unused_item store_no_used None 0) = None"
  by code_simp

section \<open>Selection and reset under any faults\<close>

lemma matching_rows_cong:
  "cells W1 = cells W \<Longrightarrow> matching_rows W1 language = matching_rows W language"
  by (simp add: matching_rows_def record_at_def)

lemma reset_cells_cong:
  "cells W1 = cells W \<Longrightarrow> reset_cells W1 language c = reset_cells W language c"
  using matching_rows_cong[of W1 W language] by (simp add: reset_cells_def)

lemma store_records_cong: "cells W1 = cells W \<Longrightarrow> store_records W1 = store_records W"
  by (simp add: store_records_def)

lemma candidate_cong: "cells W1 = cells W \<Longrightarrow> candidate W1 language idx = candidate W language idx"
  by (simp add: candidate_def record_at_def)

lemma record_at_cong: "cells W1 = cells W \<Longrightarrow> record_at W1 idx = record_at W idx"
  by (simp add: record_at_def)

lemma reset_cells_addressed:
  "\<not> list_ex (\<lambda>c. cell_row c = 0 \<or> cell_col c = 0) (reset_cells W language (Suc i))"
  by (auto simp: list_ex_iff dest!: reset_cells_rows)

lemma reset_used_flags_unfold:
  "reset_used_flags W language =
     (if next_request_fails W \<or> length (cells W) < 2
      then (False, snd (remote_call W GetAllValues))
      else (case list_index (header_of (cells W)) ''used'' of
              Inl e \<Rightarrow> (False, snd (remote_call W GetAllValues))
            | Inr i \<Rightarrow>
                if reset_cells W language (Suc i) = []
                then (False, snd (remote_call W GetAllValues))
                else if next_request_fails (snd (remote_call W GetAllValues))
                then (False, snd (remote_call (snd (remote_call W GetAllValues))
                                   (UpdateCells (reset_cells W language (Suc i)))))
                else (True, (snd (remote_call (snd (remote_call W GetAllValues))
                                   (UpdateCells (reset_cells W language (Suc i)))))
                              \<lparr>cells := foldl set_cell (cells W)
                                          (reset_cells W language (Suc i))\<rparr>)))"
proof (cases "next_request_fails W")
  case True
  then show ?thesis by (simp add: reset_used_flags_def get_all_values_eq)
next
  case nf: False
  let ?W1 = "snd (remote_call W GetAllValues)"
  have c1: "cells ?W1 = cells W" by (rule remote_call_cells)
  have gv: "get_all_values W = (Inr (cells W), ?W1)" using nf by (simp add: get_all_values_eq)
  show ?thesis
  proof (cases "length (cells W) < 2")
    case True
    then show ?thesis by (simp add: reset_used_flags_def gv)
  next
    case nl: False
    then have "cells W \<noteq> []" by auto
    then have hd: "hd (cells W) = header_of (cells W)" by (rule hd_header_of)
    show ?thesis
    proof (cases "list_index (header_of (cells W)) ''used''")
      case (Inl e)
      then show ?thesis using nf nl by (simp add: reset_used_flags_def gv hd)
    next
      case (Inr i)
      let ?ups = "reset_cells W language (Suc i)"
      have rl: "reset_loop 0 (records_of (header_of (cells W)) (cells W)) language (i + 1) = ?ups"
        using reset_loop_store[of W language "Suc i"] by (simp add: store_records_def)
      have red: "reset_used_flags W language =
           (if ?ups \<noteq> []
            then (case update_cells ?W1 ?ups of
                    (Inl e, ws2) \<Rightarrow> (False, ws2) | (Inr u, ws2) \<Rightarrow> (True, ws2))
            else (False, ?W1))"
        using nl
        by (simp only: reset_used_flags_def gv prod.case sum.case hd Inr Let_def rl if_False)
      have uc: "update_cells ?W1 ?ups =
                  (if next_request_fails ?W1
                   then (Inl APIError, snd (remote_call ?W1 (UpdateCells ?ups)))
                   else (Inr (), (snd (remote_call ?W1 (UpdateCells ?ups)))
                                   \<lparr>cells := foldl set_cell (cells W) ?ups\<rparr>))"
        by (simp only: update_cells_eq reset_cells_addressed c1 simp_thms)
      show ?thesis
      proof (cases "?ups = []")
        case True
        then show ?thesis using nf nl Inr by (simp add: red)
      next
        case False
        then show ?thesis using nf nl Inr by (simp add: red uc)
      qed
    qed
  qed
qed

lemma reset_used_flags_True:
  assumes "reset_used_flags W language = (True, W2)"
  shows "\<exists>i. list_index (header_of (cells W)) ''used'' = Inr i
           \<and> 2 \<le> length (cells W)
           \<and> cells W2 = foldl set_cell (cells W) (reset_cells W language (i + 1))
           \<and> calls W2 = calls W @ [GetAllValues, UpdateCells (reset_cells W language (i + 1))]"
proof -
  from assms obtain i where i: "list_index (header_of (cells W)) ''used'' = Inr i"
    and len: "2 \<le> length (cells W)"
    and W2: "W2 = (snd (remote_call (snd (remote_call W GetAllValues))
                                   (UpdateCells (reset_cells W language (Suc i)))))
                              \<lparr>cells := foldl set_cell (cells W)
                                          (reset_cells W language (Suc i))\<rparr>"
    unfolding reset_used_flags_unfold
    by (auto split: if_splits sum.splits)
  have "cells W2 = foldl set_cell (cells W) (reset_cells W language (i + 1))"
    by (simp add: W2)
  moreover have "calls W2 = calls W @ [GetAllValues, UpdateCells (reset_cells W language (i + 1))]"
    by (simp add: W2 remote_call_calls)
  ultimately show ?thesis using i len by blast
qed

lemma reset_used_flags_False_cells:
  "reset_used_flags W language = (False, W2) \<Longrightarrow> cells W2 = cells W"
  unfolding reset_used_flags_unfold
  by (auto split: if_splits sum.splits simp: remote_call_cells)

lemma get_unused_item_unfold:
  "get_unused_item W language rnd =
     (if next_request_fails W \<or> length (cells W) < 2
      then (None, snd (remote_call W GetAllValues))
      else if filter_unused_items (store_records W) language \<noteq> []
      then (choose_item (filter_unused_items (store_records W) language) rnd,
            snd (remote_call W GetAllValues))
      else (case reset_used_flags (snd (remote_call W GetAllValues)) language of
              (True, W2) \<Rightarrow>
                if next_request_fails W2 then (None, snd (remote_call W2 GetAllValues))
                else (choose_item
                        (filter_unused_items (records_of (header_of (cells W)) (cells W2)) language)
                        rnd,
                      snd (remote_call W2 GetAllValues))
            | (False, W2) \<Rightarrow> (None, W2)))"
proof (cases "next_request_fails W")
  case True
  then show ?thesis by (simp add: get_unused_item_def get_all_values_eq)
next
  case nf: False
  let ?W1 = "snd (remote_call W GetAllValues)"
  have gv: "get_all_values W = (Inr (cells W), ?W1)" using nf by (simp add: get_all_values_eq)
  show ?thesis
  proof (cases "length (cells W) < 2")
    case True
    then show ?thesis by (simp add: get_unused_item_def gv)
  next
    case nl: False
    then have "cells W \<noteq> []" by auto
    then have hd: "hd (cells W) = header_of (cells W)" by (rule hd_header_of)
    have sr: "records_of (header_of (cells W)) (cells W) = store_records W"
      by (simp add: store_records_def)
    have red: "get_unused_item W language rnd =
                 (if filter_unused_items (store_records W) language = []
                  then (case reset_used_flags ?W1 language of
                          (True, ws2) \<Rightarrow>
                            (case get_all_values ws2 of
                               (Inl e, ws3) \<Rightarrow> (None, ws3)
                             | (Inr all_values2, ws3) \<Rightarrow>
                                 (choose_item
                                    (filter_unused_items
                                       (records_of (header_of (cells W)) all_values2) language)
                                    rnd, ws3))
                        | (False, ws2) \<Rightarrow> (None, ws2))
                  else (choose_item (filter_unused_items (store_records W) language) rnd, ?W1))"
      using nl
      by (simp only: get_unused_item_def gv prod.case sum.case hd sr Let_def if_False)
    show ?thesis
    proof (cases "filter_unused_items (store_records W) language = []")
      case False
      then show ?thesis using nf nl by (simp add: red)
    next
      case True
      obtain b W2 where r: "reset_used_flags ?W1 language = (b, W2)"
        by (cases "reset_used_flags ?W1 language")
      show ?thesis
      proof (cases b)
        case False
        then show ?thesis using nf nl True r by (simp add: red)
      next
        case bt: True
        show ?thesis
        proof (cases "next_request_fails W2")
          case True
          then show ?thesis using nf nl \<open>filter_unused_items (store_records W) language = []\<close> r bt
            by (simp add: red get_all_values_eq)
        next
          case False
          then show ?thesis using nf nl \<open>filter_unused_items (store_records W) language = []\<close> r bt
            by (simp add: red get_all_values_eq)
        qed
      qed
    qed
  qed
qed


lemma new_calls_append: "calls W' = calls W @ cs \<Longrightarrow> new_calls W W' = cs"
  by (simp add: new_calls_def)

lemma get_unused_item_Some_cases:
  assumes "get_unused_item W language rnd = (Some (n, rec), W')"
  shows "(candidate W language n \<and> rec = record_at W n \<and> cells W' = cells W
            \<and> new_calls W W' = [GetAllValues])
       \<or> ((\<forall>idx. \<not> candidate W language idx)
          \<and> (\<exists>i. list_index (header_of (cells W)) ''used'' = Inr i
                \<and> new_calls W W' = [GetAllValues, GetAllValues,
                                     UpdateCells (reset_cells W language (i + 1)), GetAllValues]
                \<and> cells W' = foldl set_cell (cells W) (reset_cells W language (i + 1))
                \<and> candidate W' language n \<and> rec = record_at W' n))"
proof -
  let ?W1 = "snd (remote_call W GetAllValues)"
  have c1: "cells ?W1 = cells W" by (rule remote_call_cells)
  have k1: "calls ?W1 = calls W @ [GetAllValues]" by (rule remote_call_calls)
  note u = assms[unfolded get_unused_item_unfold]
  have nf: "\<not> (next_request_fails W \<or> length (cells W) < 2)"
    using u by (auto split: if_splits)
  show ?thesis
  proof (cases "filter_unused_items (store_records W) language = []")
    case False
    then have "choose_item (filter_unused_items (store_records W) language) rnd = Some (n, rec)"
      and W': "W' = ?W1"
      using u nf by (simp_all split: if_splits)
    then have "(n, rec) \<in> set (filter_unused_items (store_records W) language)"
      by (intro choose_item_in)
    then have "candidate W language n \<and> rec = record_at W n"
      by (simp only: candidate_in_filter)
    moreover have "cells W' = cells W" by (simp add: W' c1)
    moreover have "new_calls W W' = [GetAllValues]"
      by (rule new_calls_append) (simp add: W' k1)
    ultimately show ?thesis by blast
  next
    case True
    then have nc: "\<forall>idx. \<not> candidate W language idx" by (rule no_candidate_iff[THEN iffD1])
    obtain b W2 where r: "reset_used_flags ?W1 language = (b, W2)"
      by (cases "reset_used_flags ?W1 language")
    have b: "b" using u nf True r by (cases b) (simp_all split: if_splits)
    then have rt: "reset_used_flags ?W1 language = (True, W2)" using r by simp
    from reset_used_flags_True[OF rt] obtain i
      where i: "list_index (header_of (cells W)) ''used'' = Inr i"
        and c2: "cells W2 = foldl set_cell (cells W) (reset_cells W language (i + 1))"
        and k2: "calls W2 = calls W @ [GetAllValues, GetAllValues,
                                       UpdateCells (reset_cells W language (i + 1))]"
      using reset_cells_cong[OF c1] by (auto simp: c1 k1)
    have res: "choose_item
                 (filter_unused_items (records_of (header_of (cells W)) (cells W2)) language) rnd
                 = Some (n, rec)"
      and W': "W' = snd (remote_call W2 GetAllValues)"
      using u nf True rt by (simp_all split: if_splits)
    have c3: "cells W' = cells W2" by (simp add: W' remote_call_cells)
    have hdr: "header_of (cells W2) = header_of (cells W)"
      by (simp add: c2 header_reset_grid)
    have "records_of (header_of (cells W)) (cells W2) = store_records W'"
      by (simp add: store_records_def hdr c3)
    then have "(n, rec) \<in> set (filter_unused_items (store_records W') language)"
      using choose_item_in[OF res] by simp
    then have "candidate W' language n \<and> rec = record_at W' n"
      by (simp only: candidate_in_filter)
    moreover have "new_calls W W' = [GetAllValues, GetAllValues,
                                     UpdateCells (reset_cells W language (i + 1)), GetAllValues]"
      by (rule new_calls_append) (simp add: W' remote_call_calls k2)
    moreover have "cells W' = foldl set_cell (cells W) (reset_cells W language (i + 1))"
      by (simp add: c3 c2)
    ultimately show ?thesis using nc i by blast
  qed
qed

lemma get_unused_item_cells_cases:
  "cells (snd (get_unused_item W language rnd)) = cells W
   \<or> (\<exists>cs. UpdateCells cs \<in> set (new_calls W (snd (get_unused_item W language rnd))))"
proof -
  let ?W1 = "snd (remote_call W GetAllValues)"
  have c1: "cells ?W1 = cells W" by (rule remote_call_cells)
  have k1: "calls ?W1 = calls W @ [GetAllValues]" by (rule remote_call_calls)
  obtain b W2 where r: "reset_used_flags ?W1 language = (b, W2)"
    by (cases "reset_used_flags ?W1 language")
  show ?thesis
  proof (cases b)
    case False
    then have "cells W2 = cells W"
      using reset_used_flags_False_cells[of ?W1 language W2] r c1 by simp
    then show ?thesis using r False c1
      by (simp add: get_unused_item_unfold)
  next
    case True
    then have rt: "reset_used_flags ?W1 language = (True, W2)" using r by simp
    from reset_used_flags_True[OF rt] obtain cs
      where k2: "calls W2 = calls W @ [GetAllValues, GetAllValues, UpdateCells cs]"
      by (auto simp: k1)
    have "new_calls W (snd (remote_call W2 GetAllValues))
            = [GetAllValues, GetAllValues, UpdateCells cs, GetAllValues]"
      by (rule new_calls_append) (simp add: remote_call_calls k2)
    then have "UpdateCells cs \<in> set (new_calls W (snd (remote_call W2 GetAllValues)))"
      by simp
    then show ?thesis using rt c1
      by (auto simp: get_unused_item_unfold)
  qed
qed

section \<open>A marked row\<close>

lemma mark_item_as_used_Info:
  assumes "mark_item_as_used S r now = (Info_marked_as_used, S1)"
  shows "\<exists>i j. list_index (header_of (cells S)) ''used'' = Inr i
             \<and> list_index (header_of (cells S)) ''date_used'' = Inr j
             \<and> 1 \<le> r
             \<and> cells S1 = foldl set_cell (cells S) [Cell r (i + 1) ''TRUE'', Cell r (j + 1) now]"
proof -
  let ?S0 = "snd (remote_call S (RowValues 1))"
  have c0: "cells ?S0 = cells S" by (rule remote_call_cells)
  have nf: "\<not> next_request_fails S"
    using assms by (cases "next_request_fails S") (simp_all add: mark_item_as_used_def row_values1_eq)
  then have rv: "row_values1 S = (Inr (header_of (cells S)), ?S0)"
    by (simp add: row_values1_eq)
  obtain i where i: "list_index (header_of (cells S)) ''used'' = Inr i"
    using assms
    by (cases "list_index (header_of (cells S)) ''used''")
       (simp_all add: mark_item_as_used_def rv)
  obtain j where j: "list_index (header_of (cells S)) ''date_used'' = Inr j"
    using assms
    by (cases "list_index (header_of (cells S)) ''date_used''")
       (simp_all add: mark_item_as_used_def rv i)
  let ?cs = "[Cell r (i + 1) ''TRUE'', Cell r (j + 1) now]"
  have red: "mark_item_as_used S r now =
               (case update_cells ?S0 ?cs of
                  (Inl e, ws2) \<Rightarrow> (Warning_could_not_mark, ws2)
                | (Inr u, ws2) \<Rightarrow> (Info_marked_as_used, ws2))"
    by (simp only: mark_item_as_used_def rv prod.case sum.case i j Let_def)
  have uc: "update_cells ?S0 ?cs =
              (if next_request_fails ?S0 \<or> r = 0
               then (Inl APIError, snd (remote_call ?S0 (UpdateCells ?cs)))
               else (Inr (), (snd (remote_call ?S0 (UpdateCells ?cs)))
                               \<lparr>cells := foldl set_cell (cells S) ?cs\<rparr>))"
    by (simp add: update_cells_eq remote_call_cells)
  have nb: "\<not> (next_request_fails ?S0 \<or> r = 0)"
    using assms unfolding red uc by (auto split: if_splits)
  have "S1 = (snd (remote_call ?S0 (UpdateCells ?cs)))
                               \<lparr>cells := foldl set_cell (cells S) ?cs\<rparr>"
    using assms nb unfolding red uc by (auto split: if_splits)
  then have "cells S1 = foldl set_cell (cells S) ?cs" by simp
  moreover have "1 \<le> r" using nb by simp
  ultimately show ?thesis using i j by blast
qed

lemma upper_TRUE: "upper ''TRUE'' \<noteq> ''FALSE''"
  by code_simp

lemma not_unused_empty_record: "\<not> is_unused []"
  by (simp add: is_unused_def dict_get_def dict_lookup_def upper_def)

lemma marked_grid:
  fixes now :: string
  assumes i: "list_index (header_of g) ''used'' = Inr i"
    and j: "list_index (header_of g) ''date_used'' = Inr j"
    and r: "2 \<le> r"
  defines "g' \<equiv> foldl set_cell g [Cell r (i + 1) ''TRUE'', Cell r (j + 1) now]"
  shows "header_of g' = header_of g"
    and "length g' = max r (length g)"
    and "cell_at g' r (i + 1) = ''TRUE''"
    and "\<And>idx. 1 \<le> idx \<Longrightarrow> idx \<le> length g \<Longrightarrow> idx \<noteq> r \<Longrightarrow> g' ! (idx - 1) = g ! (idx - 1)"
    and "\<And>idx. length g < idx \<Longrightarrow> idx \<le> length g' \<Longrightarrow> idx \<noteq> r \<Longrightarrow> g' ! (idx - 1) = []"
proof -
  have ne: "g \<noteq> []" using i by (cases g) (simp_all add: header_of_def)
  have ij: "i \<noteq> j"
  proof
    assume "i = j"
    then have "''used'' = ''date_used''"
      using list_index_Inr[OF i] list_index_Inr[OF j] by simp
    then show False by simp
  qed
  show "header_of g' = header_of g"
    unfolding g'_def by (rule header_of_foldl_set_cell) (use r ne in auto)
  show len: "length g' = max r (length g)"
    by (simp add: g'_def length_set_cell)
  show "cell_at g' r (i + 1) = ''TRUE''"
    unfolding g'_def using r ij by (simp add: cell_at_set_cell)
  show "g' ! (idx - 1) = g ! (idx - 1)" if "1 \<le> idx" "idx \<le> length g" "idx \<noteq> r" for idx
    unfolding g'_def
    by (rule nth_foldl_set_cell_other) (use that r in auto)
  show "g' ! (idx - 1) = []" if "length g < idx" "idx \<le> length g'" "idx \<noteq> r" for idx
  proof -
    let ?g1 = "set_cell g (Cell r (i + 1) ''TRUE'')"
    have lt: "idx < r" using that len by auto
    have in1: "?g1 ! (idx - 1) = []"
      by (rule nth_set_cell_gap) (use that lt in auto)
    have "set_cell ?g1 (Cell r (j + 1) now) ! (idx - 1) = ?g1 ! (idx - 1)"
      by (rule nth_set_cell_other) (use that lt in \<open>auto simp: length_set_cell\<close>)
    then show ?thesis using in1 by (simp add: g'_def)
  qed
qed


lemma marked_row_no_candidate:
  assumes "mark_item_as_used S r now = (Info_marked_as_used, S1)"
    and "count_list (header_of (cells S)) ''used'' = 1"
    and "2 \<le> r"
  shows "\<not> candidate S1 language r"
proof
  from mark_item_as_used_Info[OF assms(1)] obtain i j
    where i: "list_index (header_of (cells S)) ''used'' = Inr i"
      and j: "list_index (header_of (cells S)) ''date_used'' = Inr j"
      and c1: "cells S1 = foldl set_cell (cells S) [Cell r (i + 1) ''TRUE'', Cell r (j + 1) now]"
    by blast
  note g = marked_grid[OF i j assms(3), where now = now, folded c1]
  assume "candidate S1 language r"
  then have un: "is_unused (record_at S1 r)" by (simp add: candidate_def)
  have "dict_get (record_at S1 r) ''used'' '''' = cell_at (cells S1) r (i + 1)"
    by (rule dict_get_record_at) (use assms(2,3) i g(1,2) in simp_all)
  then have "dict_get (record_at S1 r) ''used'' '''' = ''TRUE''"
    by (simp only: g(3))
  then show False using un upper_TRUE by (simp only: is_unused_def)
qed

text \<open>
  C3. After \<open>mark_item_as_used\<close> has written a data row \<open>r\<close> of a store whose header names
  \<open>used\<close> once: row \<open>r\<close> is no candidate of the store, whatever the filter; when a later
  \<open>get_unused_item\<close> without filter returns \<open>r\<close>, that call has made the write request of
  a reset and the request holds \<open>FALSE\<close> for the \<open>used\<close> cell of row \<open>r\<close>; the mark has made
  no row a candidate that was none before; and a \<open>get_unused_item\<close> on any store leaves
  every cell as it is unless it issues the write request of the reset.
\<close>

theorem marked_row_not_selected_until_reset:
  assumes "mark_item_as_used S r now = (Info_marked_as_used, S1)"
    and "count_list (header_of (cells S)) ''used'' = 1"
    and "2 \<le> r"
  shows "\<not> candidate S1 language r
       \<and> (fst (get_unused_item S1 None rnd) = Some (r, rec) \<longrightarrow>
            (\<exists>i. list_index (header_of (cells S1)) ''used'' = Inr i
               \<and> UpdateCells (reset_cells S1 None (i + 1))
                    \<in> set (new_calls S1 (snd (get_unused_item S1 None rnd)))
               \<and> Cell r (i + 1) ''FALSE'' \<in> set (reset_cells S1 None (i + 1))))
       \<and> (\<forall>idx. candidate S1 language idx \<longrightarrow> candidate S language idx)
       \<and> (cells (snd (get_unused_item W language rnd)) = cells W
          \<or> (\<exists>cs. UpdateCells cs \<in> set (new_calls W (snd (get_unused_item W language rnd)))))"
proof -
  from mark_item_as_used_Info[OF assms(1)] obtain i j
    where i: "list_index (header_of (cells S)) ''used'' = Inr i"
      and j: "list_index (header_of (cells S)) ''date_used'' = Inr j"
      and c1: "cells S1 = foldl set_cell (cells S) [Cell r (i + 1) ''TRUE'', Cell r (j + 1) now]"
    by blast
  note g = marked_grid[OF i j assms(3), where now = now, folded c1]
  have hdr: "header_of (cells S1) = header_of (cells S)" by (rule g(1))
  have len: "length (cells S1) = max r (length (cells S))" by (rule g(2))
  have a: "\<not> candidate S1 language r" for language
    by (rule marked_row_no_candidate[OF assms])
  have c: "candidate S language idx" if cand: "candidate S1 language idx" for idx
  proof -
    have ne: "idx \<noteq> r" using cand a by blast
    have rng: "2 \<le> idx" "idx \<le> length (cells S1)" using cand by (simp_all add: candidate_def)
    show ?thesis
    proof (cases "idx \<le> length (cells S)")
      case True
      have "cells S1 ! (idx - 1) = cells S ! (idx - 1)"
        by (rule g(4)) (use rng True ne in auto)
      then have "record_at S1 idx = record_at S idx"
        by (simp add: record_at_def hdr)
      then show ?thesis using cand rng True by (simp add: candidate_def)
    next
      case False
      have "cells S1 ! (idx - 1) = []"
        by (rule g(5)) (use rng False ne in auto)
      then have "record_at S1 idx = []" by (simp add: record_at_def)
      then show ?thesis using cand not_unused_empty_record by (simp add: candidate_def)
    qed
  qed
  have b: "\<exists>i. list_index (header_of (cells S1)) ''used'' = Inr i
               \<and> UpdateCells (reset_cells S1 None (i + 1))
                    \<in> set (new_calls S1 (snd (get_unused_item S1 None rnd)))
               \<and> Cell r (i + 1) ''FALSE'' \<in> set (reset_cells S1 None (i + 1))"
    if res: "fst (get_unused_item S1 None rnd) = Some (r, rec)"
  proof -
    let ?W' = "snd (get_unused_item S1 None rnd)"
    have eq: "get_unused_item S1 None rnd = (Some (r, rec), ?W')"
      using res by (simp add: prod_eq_iff)
    from get_unused_item_Some_cases[OF eq] a[of None]
    obtain i' where i': "list_index (header_of (cells S1)) ''used'' = Inr i'"
      and nc: "new_calls S1 ?W' = [GetAllValues, GetAllValues,
                                     UpdateCells (reset_cells S1 None (i' + 1)), GetAllValues]"
      and cw: "cells ?W' = foldl set_cell (cells S1) (reset_cells S1 None (i' + 1))"
      and cand: "candidate ?W' None r"
      by blast
    have "length (cells ?W') = length (cells S1)"
      by (simp only: cw length_reset_grid)
    then have "r \<in> set (matching_rows S1 None)"
      using cand by (simp add: candidate_def matching_rows_iff lang_match_def)
    then have "Cell r (i' + 1) ''FALSE'' \<in> set (reset_cells S1 None (i' + 1))"
      by (simp add: reset_cells_def)
    moreover have "UpdateCells (reset_cells S1 None (i' + 1)) \<in> set (new_calls S1 ?W')"
      by (simp only: nc) simp
    ultimately show ?thesis using i' by blast
  qed
  show ?thesis
    using a[of language] b c get_unused_item_cells_cases[of W language rnd] by blast
qed


theorem marked_row_not_selected_until_reset_witness:
  "mark_item_as_used store_full 2 ''2025-03-14 07:00:00''
     = (Info_marked_as_used, snd (mark_item_as_used store_full 2 ''2025-03-14 07:00:00''))
   \<and> count_list (header_of (cells store_full)) ''used'' = 1
   \<and> candidate store_full None 2
   \<and> \<not> candidate (snd (mark_item_as_used store_full 2 ''2025-03-14 07:00:00'')) None 2
   \<and> fst (get_unused_item (snd (mark_item_as_used store_full 2 ''2025-03-14 07:00:00'')) None 0)
        = Some (2, [(''content'', ''a''), (''used'', ''FALSE''),
                    (''date_used'', ''2025-03-14 07:00:00'')])
   \<and> (\<exists>i. UpdateCells
              (reset_cells (snd (mark_item_as_used store_full 2 ''2025-03-14 07:00:00'')) None (i + 1))
            \<in> set (new_calls (snd (mark_item_as_used store_full 2 ''2025-03-14 07:00:00''))
                     (snd (get_unused_item
                            (snd (mark_item_as_used store_full 2 ''2025-03-14 07:00:00'')) None 0))))"
proof -
  let ?S1 = "snd (mark_item_as_used store_full 2 ''2025-03-14 07:00:00'')"
  have "fst (mark_item_as_used store_full 2 ''2025-03-14 07:00:00'') = Info_marked_as_used"
    by code_simp
  then have h1: "mark_item_as_used store_full 2 ''2025-03-14 07:00:00''
                   = (Info_marked_as_used, ?S1)"
    by (simp add: prod_eq_iff)
  have h2: "count_list (header_of (cells store_full)) ''used'' = 1" by code_simp
  have h3: "(2::nat) \<le> 2" by simp
  have h4: "candidate store_full None 2" by code_simp
  have h5: "fst (get_unused_item ?S1 None 0)
        = Some (2, [(''content'', ''a''), (''used'', ''FALSE''),
                    (''date_used'', ''2025-03-14 07:00:00'')])"
    by code_simp
  show ?thesis
    using marked_row_not_selected_until_reset[OF h1 h2 h3, of None 0
        "[(''content'', ''a''), (''used'', ''FALSE''), (''date_used'', ''2025-03-14 07:00:00'')]"
        store_full]
      h1 h2 h4 h5
    by blast
qed

section \<open>The rotation\<close>

lemma fetch_content_other_store:
  assumes "\<forall>cc u n. sources_get ds k = Some cc \<and> dict_item cc ''spreadsheet_url'' = Inr u
             \<and> dict_item cc ''worksheet_name'' = Inr n \<longrightarrow> (u, n) \<noteq> K"
  shows "snd (fetch_content ds k rnd now remote) K = remote K"
  using assms
  by (auto simp: fetch_content_def get_worksheet_def Let_def
      split: option.splits sum.splits prod.splits if_splits)


lemma get_unused_item_index:
  assumes "get_unused_item W language rnd = (Some (n, rec), W')"
  shows "2 \<le> n"
  using get_unused_item_Some_cases[OF assms] by (auto simp: candidate_def)

text \<open>
  C7, as the code has it. In an execution of \<open>_get_rotating_content\<close> that selects a
  category row whose \<open>content\<close> text is not empty, \<open>mark_item_as_used\<close> is applied to that
  row before the content source is looked up: the rest of the function runs on the store
  as the mark left it. When the content source is another worksheet than the rotation
  sheet, the rotation sheet of the final state is the marked one, whatever the later
  steps return, an error included. When the mark logged success and the header names
  \<open>used\<close> once, the row is no candidate any more.
\<close>

theorem category_row_marked_before_content_lookup:
  assumes "sources_get ds key = Some rc" and "rc \<noteq> []"
    and "dict_item rc ''spreadsheet_url'' = Inr url"
    and "dict_item rc ''worksheet_name'' = Inr name"
    and "remote (url, name) = Some ws"
    and "get_unused_item ws None rnd_a = (Some (rot_idx, rot_data), ws_a)"
    and "dict_lookup rot_data ''content'' = Some k" and "k \<noteq> ''''"
  shows "get_rotating_content ds key rnd_a now_a rnd_b now_b remote
           = fetch_content ds k rnd_b now_b
               (remote((url, name) \<mapsto> snd (mark_item_as_used ws_a rot_idx now_a)))
       \<and> ((\<forall>cc u n. sources_get ds k = Some cc \<and> dict_item cc ''spreadsheet_url'' = Inr u
               \<and> dict_item cc ''worksheet_name'' = Inr n \<longrightarrow> (u, n) \<noteq> (url, name)) \<longrightarrow>
            snd (get_rotating_content ds key rnd_a now_a rnd_b now_b remote) (url, name)
              = Some (snd (mark_item_as_used ws_a rot_idx now_a)))
       \<and> (fst (mark_item_as_used ws_a rot_idx now_a) = Info_marked_as_used
            \<and> count_list (header_of (cells ws_a)) ''used'' = 1 \<longrightarrow>
            \<not> candidate (snd (mark_item_as_used ws_a rot_idx now_a)) None rot_idx)"
proof -
  let ?m = "mark_item_as_used ws_a rot_idx now_a"
  have ne: "rot_data \<noteq> []"
    using assms(7) by (auto simp: dict_lookup_Nil)
  have eq: "get_rotating_content ds key rnd_a now_a rnd_b now_b remote
           = fetch_content ds k rnd_b now_b (remote((url, name) \<mapsto> snd ?m))"
    using assms ne
    by (simp add: get_rotating_content_def get_worksheet_def split_beta)
  have other: "snd (get_rotating_content ds key rnd_a now_a rnd_b now_b remote) (url, name)
              = Some (snd ?m)"
    if "\<forall>cc u n. sources_get ds k = Some cc \<and> dict_item cc ''spreadsheet_url'' = Inr u
               \<and> dict_item cc ''worksheet_name'' = Inr n \<longrightarrow> (u, n) \<noteq> (url, name)"
    using fetch_content_other_store[OF that, of rnd_b now_b "remote((url, name) \<mapsto> snd ?m)"]
    by (simp add: eq)
  have tok: "\<not> candidate (snd ?m) None rot_idx"
    if "fst ?m = Info_marked_as_used \<and> count_list (header_of (cells ws_a)) ''used'' = 1"
  proof -
    have m: "?m = (Info_marked_as_used, snd ?m)" using that by (simp add: prod_eq_iff)
    have "2 \<le> rot_idx" using assms(6) by (rule get_unused_item_index)
    with m that show ?thesis by (intro marked_row_no_candidate[of ws_a rot_idx now_a]) simp_all
  qed
  show ?thesis using eq other tok by blast
qed

theorem category_row_marked_before_content_lookup_witness:
  "sources_get ds_demo ''rotation''
     = Some [(''spreadsheet_url'', ''u''), (''worksheet_name'', ''Rotation'')]
   \<and> remote_demo (''u'', ''Rotation'') = Some store_rotation
   \<and> fst (get_unused_item store_rotation None 0)
       = Some (2, [(''content'', ''riddles''), (''used'', ''FALSE''), (''date_used'', '''')])
   \<and> sources_get ds_demo ''riddles'' = None
   \<and> fst (get_rotating_content ds_demo ''rotation'' 0 ''2025-03-14 07:00:00'' 0
            ''2025-03-14 07:00:01'' remote_demo) = Inr ('''', '''')
   \<and> snd (get_rotating_content ds_demo ''rotation'' 0 ''2025-03-14 07:00:00'' 0
            ''2025-03-14 07:00:01'' remote_demo) (''u'', ''Rotation'')
       = Some (snd (mark_item_as_used (snd (get_unused_item store_rotation None 0)) 2
                      ''2025-03-14 07:00:00''))
   \<and> \<not> candidate (snd (mark_item_as_used (snd (get_unused_item store_rotation None 0)) 2
                           ''2025-03-14 07:00:00'')) None 2"
proof -
  let ?rc = "[(''spreadsheet_url'', ''u''), (''worksheet_name'', ''Rotation'')]"
  let ?rd = "[(''content'', ''riddles''), (''used'', ''FALSE''), (''date_used'', '''')]"
  let ?ws1 = "snd (get_unused_item store_rotation None 0)"
  have h1: "sources_get ds_demo ''rotation'' = Some ?rc" by code_simp
  have h2: "?rc \<noteq> []" by simp
  have h3: "dict_item ?rc ''spreadsheet_url'' = Inr ''u''" by code_simp
  have h4: "dict_item ?rc ''worksheet_name'' = Inr ''Rotation''" by code_simp
  have h5: "remote_demo (''u'', ''Rotation'') = Some store_rotation" by code_simp
  have f6: "fst (get_unused_item store_rotation None 0) = Some (2, ?rd)" by code_simp
  then have h6: "get_unused_item store_rotation None 0 = (Some (2, ?rd), ?ws1)"
    by (simp add: prod_eq_iff)
  have h7: "dict_lookup ?rd ''content'' = Some ''riddles''" by code_simp
  have h8: "''riddles'' \<noteq> ''''" by simp
  have n9: "sources_get ds_demo ''riddles'' = None" by code_simp
  have f10: "fst (fetch_content ds_demo ''riddles'' 0 ''2025-03-14 07:00:01''
               (remote_demo((''u'', ''Rotation'') \<mapsto>
                  snd (mark_item_as_used ?ws1 2 ''2025-03-14 07:00:00'')))) = Inr ('''', '''')"
    by (simp add: fetch_content_def n9)
  have m11: "fst (mark_item_as_used ?ws1 2 ''2025-03-14 07:00:00'') = Info_marked_as_used"
    by code_simp
  have c12: "count_list (header_of (cells ?ws1)) ''used'' = 1" by code_simp
  have oth: "\<forall>cc u n. sources_get ds_demo ''riddles'' = Some cc
               \<and> dict_item cc ''spreadsheet_url'' = Inr u
               \<and> dict_item cc ''worksheet_name'' = Inr n \<longrightarrow> (u, n) \<noteq> (''u'', ''Rotation'')"
    by (simp add: n9)
  note T = category_row_marked_before_content_lookup
            [where remote = remote_demo and now_a = "''2025-03-14 07:00:00''" and rnd_b = 0
               and now_b = "''2025-03-14 07:00:01''", OF h1 h2 h3 h4 h5 h6 h7 h8]
  have t1: "get_rotating_content ds_demo ''rotation'' 0 ''2025-03-14 07:00:00'' 0
              ''2025-03-14 07:00:01'' remote_demo
            = fetch_content ds_demo ''riddles'' 0 ''2025-03-14 07:00:01''
               (remote_demo((''u'', ''Rotation'') \<mapsto>
                  snd (mark_item_as_used ?ws1 2 ''2025-03-14 07:00:00'')))"
    using T by blast
  have t2: "snd (get_rotating_content ds_demo ''rotation'' 0 ''2025-03-14 07:00:00'' 0
            ''2025-03-14 07:00:01'' remote_demo) (''u'', ''Rotation'')
       = Some (snd (mark_item_as_used ?ws1 2 ''2025-03-14 07:00:00''))"
    using T oth by blast
  have t3: "\<not> candidate (snd (mark_item_as_used ?ws1 2 ''2025-03-14 07:00:00'')) None 2"
    using T m11 c12 by blast
  have t4: "fst (get_rotating_content ds_demo ''rotation'' 0 ''2025-03-14 07:00:00'' 0
            ''2025-03-14 07:00:01'' remote_demo) = Inr ('''', '''')"
    by (simp only: t1 f10)
  show ?thesis using h1 h5 f6 n9 t2 t3 t4 by blast
qed

text \<open>
  C7, as the specification states it, fails: the only row of this rotation sheet is
  selected, its \<open>content\<close> cell is empty, and the function returns before the mark. The
  sheet has seen the one read of the selection, no cell has changed, and the row is
  still a candidate.
\<close>

theorem selected_row_with_empty_content_counterexample:
  "remote_blank (''u'', ''Rotation'') = Some store_rotation_blank
   \<and> fst (get_unused_item store_rotation_blank None 0)
       = Some (2, [(''content'', ''''), (''used'', ''FALSE''), (''date_used'', '''')])
   \<and> fst (get_rotating_content ds_demo ''rotation'' 0 ''2025-03-14 07:00:00'' 0
            ''2025-03-14 07:00:01'' remote_blank) = Inr ('''', '''')
   \<and> map_option calls
         (snd (get_rotating_content ds_demo ''rotation'' 0 ''2025-03-14 07:00:00'' 0
                 ''2025-03-14 07:00:01'' remote_blank) (''u'', ''Rotation''))
       = Some [GetAllValues]
   \<and> map_option cells
         (snd (get_rotating_content ds_demo ''rotation'' 0 ''2025-03-14 07:00:00'' 0
                 ''2025-03-14 07:00:01'' remote_blank) (''u'', ''Rotation''))
       = Some (cells store_rotation_blank)
   \<and> candidate store_rotation_blank None 2"
  by code_simp

section \<open>The job lock\<close>

lemma col_values1_fst:
  "fst (col_values1 ws) =
     (if next_request_fails ws then Inl APIError else Inr (column_A (cells ws)))"
  using remote_call_fst[of ws "ColValues 1"] remote_call_cells[of ws "ColValues 1"]
  by (auto simp: col_values1_def column_A_def split: prod.splits)

lemma col_values1_snd: "snd (col_values1 ws) = snd (remote_call ws (ColValues 1))"
  by (auto simp: col_values1_def split: prod.splits)

lemma check_if_job_ran_fst:
  "fst (check_if_job_ran ws k) = (next_request_fails ws \<or> k \<in> set (column_A (cells ws)))"
  using col_values1_fst[of ws]
  by (auto simp: check_if_job_ran_def split: prod.splits sum.splits if_splits)

lemma check_if_job_ran_snd: "snd (check_if_job_ran ws k) = snd (remote_call ws (ColValues 1))"
  using col_values1_snd[of ws]
  by (auto simp: check_if_job_ran_def split: prod.splits sum.splits if_splits)

lemma check_if_job_ran_ok:
  "faults ws = [] \<Longrightarrow> check_if_job_ran ws k =
     (k \<in> set (column_A (cells ws)), ws\<lparr>calls := calls ws @ [ColValues 1]\<rparr>)"
  using check_if_job_ran_fst[of ws k] check_if_job_ran_snd[of ws k]
  by (simp add: prod_eq_iff next_request_fails_no_faults remote_call_ok)

text \<open>
  C9. When the scan of the key column fails with an error, \<open>check_if_job_ran\<close> returns
  \<open>True\<close>: the job is taken as already run.
\<close>

theorem check_if_job_ran_scan_error:
  "fst (col_values1 ws) = Inl e \<Longrightarrow> fst (check_if_job_ran ws k) = True"
  by (auto simp: check_if_job_ran_def split: prod.splits)

theorem check_if_job_ran_scan_error_witness:
  "fst (col_values1 ledger_offline) = Inl APIError
   \<and> fst (check_if_job_ran ledger_offline ''time1_2025-03-14'') = True"
proof -
  have h: "fst (col_values1 ledger_offline) = Inl APIError"
    by (simp add: col_values1_def remote_call_def ledger_offline_def)
  show ?thesis
    using h check_if_job_ran_scan_error[OF h, of "''time1_2025-03-14''"] by simp
qed

text \<open>
  C4, as the code has it. When the scan succeeds, \<open>check_if_job_ran\<close> returns \<open>True\<close>
  exactly when the key is a cell of column A, the header cell included, whatever the
  header names; the sheet is left as it is. When the header names \<open>job_key\<close> in column A,
  this is: the key is in the \<open>job_key\<close> column or is the header text itself.
\<close>

theorem check_if_job_ran_column_A:
  assumes "\<not> next_request_fails L"
  shows "(fst (check_if_job_ran L k) \<longleftrightarrow> k \<in> set (column_A (cells L)))
       \<and> cells (snd (check_if_job_ran L k)) = cells L
       \<and> (\<forall>rest rows. cells L = (''job_key'' # rest) # rows \<longrightarrow>
            (fst (check_if_job_ran L k) \<longleftrightarrow>
               k = ''job_key'' \<or> k \<in> set (spec_column_by_header_name (cells L) ''job_key'')))"
proof -
  have a: "fst (check_if_job_ran L k) \<longleftrightarrow> k \<in> set (column_A (cells L))"
    using assms by (simp add: check_if_job_ran_fst)
  have b: "cells (snd (check_if_job_ran L k)) = cells L"
    by (simp add: check_if_job_ran_snd remote_call_cells)
  have c: "column_A (cells L) = ''job_key'' # spec_column_by_header_name (cells L) ''job_key''"
    if "cells L = (''job_key'' # rest) # rows" for rest rows
  proof -
    have "(case r of [] \<Rightarrow> [] | c # _ \<Rightarrow> c) = (if 0 < length r then r ! 0 else '''')"
      for r :: "string list"
      by (cases r) simp_all
    then show ?thesis
      using that by (simp add: column_A_def spec_column_by_header_name_def)
  qed
  show ?thesis using a b c by auto
qed

theorem check_if_job_ran_column_A_witness:
  "\<not> next_request_fails ledger0
   \<and> fst (check_if_job_ran ledger0 ''job_key'')
   \<and> \<not> fst (check_if_job_ran ledger0 ''time1_2025-03-14'')
   \<and> cells (snd (check_if_job_ran ledger0 ''time1_2025-03-14'')) = cells ledger0"
proof -
  have h: "\<not> next_request_fails ledger0"
    by (simp add: next_request_fails_def ledger0_def)
  have c: "column_A (cells ledger0) = [''job_key'']"
    by (simp add: column_A_def ledger0_def)
  show ?thesis
    using h c check_if_job_ran_column_A[OF h, of "''job_key''"]
      check_if_job_ran_column_A[OF h, of "''time1_2025-03-14''"]
    by simp
qed

text \<open>
  C4, as the specification states it, fails: this ledger passes the header check of
  \<open>main\<close>, the key stands in the column whose header is \<open>job_key\<close>, and
  \<open>check_if_job_ran\<close> returns \<open>False\<close>, since it reads column A.
\<close>

theorem check_if_job_ran_by_name_counterexample:
  "headers_valid (hd (cells ledger_swapped))
   \<and> ''time1_2025-03-14'' \<in> set (spec_column_by_header_name (cells ledger_swapped) ''job_key'')
   \<and> fst (check_if_job_ran ledger_swapped ''time1_2025-03-14'') = False"
  by (simp add: ledger_swapped_def headers_valid_def spec_column_by_header_name_def
      check_if_job_ran_def col_values1_def remote_call_def)













end
